theory Spec2Isabelle
  imports Main "HOL-Library.Multiset"
begin

section \<open>LegalLens.AI: the persistent store and the batch ingestion pipeline\<close>

text \<open>
  A shallow embedding of \<^verbatim>\<open>storageService\<close> (the local-storage backed store) and of the
  upload component \<^verbatim>\<open>ContractUpload\<close> (\<^verbatim>\<open>validateAndAddFiles\<close>, \<^verbatim>\<open>processFile\<close>,
  \<^verbatim>\<open>handleAnalyzeAll\<close>, \<^verbatim>\<open>handleRemoveFile\<close>).

  Conventions of the embedding:
  \<^item> a thrown JavaScript exception is the \<open>Inl\<close> branch of a sum; a \<^verbatim>\<open>try/catch\<close> is a
    case distinction on that sum;
  \<^item> the text held under a storage key is represented by what \<^verbatim>\<open>JSON.parse\<close> makes of it:
    either it does not parse (\<open>Unparsable\<close>), or it parses to an array of rows such as
    \<^verbatim>\<open>JSON.stringify\<close> wrote (\<open>Rows\<close>), or it parses to a value that is not an array
    (\<open>NotArray\<close>: \<^verbatim>\<open>null\<close>, a number, a string, an object); the rows of an array have the
    fields of their declared type; a field that is \<^verbatim>\<open>undefined\<close> is dropped by
    \<^verbatim>\<open>JSON.stringify\<close> and is \<open>None\<close> here;
  \<^item> whatever the browser and the analysis service decide (whether \<^verbatim>\<open>setItem\<close> throws,
    what the file reader and \<^verbatim>\<open>analyzeContract\<close> return, the random identifier, the clock)
    is a field of the record \<open>host\<close>, so every theorem holds for every behaviour of them;
  \<^item> the simulated latency \<^verbatim>\<open>delay(300)\<close> and the console output are left out;
  \<^item> under \<^verbatim>\<open>Promise.all\<close> the dispatches of the pending items reach the storage in the
    order in which they complete, which the host decides (\<open>settles_at\<close>); the storage
    section of one dispatch (the writes of \<^verbatim>\<open>saveContract\<close> and of \<^verbatim>\<open>saveRecentAnalysis\<close>) is
    synchronous and runs as one step; the results are reported in the order of the items.
\<close>

subsection \<open>Data model\<close>

text \<open>A thrown value: the \<^verbatim>\<open>name\<close> and the (DOMException) \<^verbatim>\<open>code\<close> that the handlers inspect.\<close>

record js_error =
  ename :: string
  ecode :: "nat option"

definition SyntaxError :: js_error where
  "SyntaxError = \<lparr>ename = ''SyntaxError'', ecode = None\<rparr>"

definition TypeError :: js_error where
  "TypeError = \<lparr>ename = ''TypeError'', ecode = None\<rparr>"

record clause =
  clause_id :: string
  clause_text :: string
  explanation :: string
  riskLevel :: string
  riskyKeywords :: "string list"
  reason :: string

record analysis =
  summary :: string
  overallRisk :: string
  riskScore :: int
  fullText :: string
  clauses :: "clause list"

text \<open>\<^verbatim>\<open>Contract\<close>; the fields \<^verbatim>\<open>id\<close> and \<^verbatim>\<open>status\<close> are \<open>cid\<close> and \<open>contract_status\<close> here.\<close>

record contract =
  cid :: string
  userId :: string
  fileName :: string
  uploadDate :: int
  contract_status :: string
  analysis :: analysis
  fileData :: "string option"
  mimeType :: string

text \<open>\<^verbatim>\<open>RecentAnalysis\<close>; its fields carry the prefix \<open>r\<close> where the name is taken.\<close>

record recentAnalysis =
  rid :: string
  rname :: string
  createdAt :: string
  sourceType :: string
  rfileName :: string
  rawText :: string
  rriskScore :: int
  riskSummary :: string
  rsummary :: "string list"
  rclauses :: "clause list"

text \<open>A parsed JSON value that is not an array.\<close>

datatype json_value =
  JNull | JBool bool | JNumber int | JString string | JObject "(string \<times> json_value) list"

text \<open>What \<^verbatim>\<open>JSON.parse\<close> returns, and the text under a key.\<close>

datatype 'a parsed = Rows "'a list" | NotArray json_value

datatype 'a blob = Unparsable | Text "'a parsed"

text \<open>The two storage keys \<^verbatim>\<open>legallens_contracts\<close> and \<^verbatim>\<open>legallens_recent_analyses\<close>;
  \<open>None\<close> is a key that is not set (\<^verbatim>\<open>getItem\<close> returns \<^verbatim>\<open>null\<close>).\<close>

record localStorage =
  CONTRACTS :: "contract blob option"
  RECENT_ANALYSES :: "recentAnalysis blob option"

text \<open>A browser \<^verbatim>\<open>File\<close>; \<open>fref\<close> is the identity of the object, which \<^verbatim>\<open>===\<close> compares.
  The field \<^verbatim>\<open>file\<close> of \<^verbatim>\<open>FileUploadState\<close> is \<open>file_of\<close>.\<close>

record File =
  fref :: nat
  fname :: string
  ftype :: string
  fsize :: nat

datatype status = Pending | Processing | Success | Error

record fileUploadState =
  file_of :: File
  status :: status
  error :: "string option"
  contract :: "contract option"

text \<open>The component's state: \<^verbatim>\<open>files\<close> and \<^verbatim>\<open>globalError\<close>.\<close>

record upload_state =
  files :: "fileUploadState list"
  globalError :: "string option"

text \<open>
  The surroundings of the code. \<open>setItem_contracts ls v\<close> is the exception, if any, with
  which \<^verbatim>\<open>localStorage.setItem\<close> answers the attempt to store the rows \<open>v\<close> under the
  contracts key when the storage holds \<open>ls\<close>; a \<^verbatim>\<open>setItem\<close> that throws stores nothing.
  \<open>settles_at f\<close> is the instant at which the dispatch of the file \<open>f\<close> reaches its storage
  section.
\<close>

record host =
  setItem_contracts :: "localStorage \<Rightarrow> contract list \<Rightarrow> js_error option"
  setItem_recent :: "localStorage \<Rightarrow> recentAnalysis list \<Rightarrow> js_error option"
  readAsDataURL :: "File \<Rightarrow> js_error + string"
  analyzeContract :: "string \<Rightarrow> string \<Rightarrow> js_error + analysis"
  generateId :: "File \<Rightarrow> string"
  Date_now :: "File \<Rightarrow> int"
  toISOString :: "int \<Rightarrow> string"
  settles_at :: "File \<Rightarrow> nat"
  user_id :: string

subsection \<open>JavaScript library functions\<close>

definition JSON_parse :: "'a blob \<Rightarrow> js_error + 'a parsed" where
  "JSON_parse t = (case t of Unparsable \<Rightarrow> Inl SyntaxError | Text v \<Rightarrow> Inr v)"

text \<open>The call of an array method (\<^verbatim>\<open>filter\<close>, \<^verbatim>\<open>find\<close>, \<^verbatim>\<open>findIndex\<close>) on a parsed value: on
  \<^verbatim>\<open>null\<close> the property access throws a TypeError, on any other value that is not an array
  the method is \<^verbatim>\<open>undefined\<close> and calling it throws a TypeError.\<close>

definition array_method :: "'a parsed \<Rightarrow> js_error + 'a list" where
  "array_method v = (case v of Rows xs \<Rightarrow> Inr xs | NotArray j \<Rightarrow> Inl TypeError)"

text \<open>\<^verbatim>\<open>localStorage.getItem(key) || '[]'\<close>\<close>

definition or_empty_array :: "'a blob option \<Rightarrow> 'a blob" where
  "or_empty_array v = (case v of None \<Rightarrow> Text (Rows []) | Some t \<Rightarrow> t)"

fun findIndex :: "('a \<Rightarrow> bool) \<Rightarrow> 'a list \<Rightarrow> nat option" where
  "findIndex P [] = None"
| "findIndex P (x # xs) = (if P x then Some 0 else map_option Suc (findIndex P xs))"

text \<open>\<^verbatim>\<open>Array.prototype.sort\<close> with a comparator: a stable sort; \<open>x\<close> goes before \<open>y\<close>
  when the comparator is negative, and equal elements keep their order.\<close>

fun insert_by :: "('a \<Rightarrow> 'a \<Rightarrow> int) \<Rightarrow> 'a \<Rightarrow> 'a list \<Rightarrow> 'a list" where
  "insert_by cmp x [] = [x]"
| "insert_by cmp x (y # ys) = (if cmp x y \<le> 0 then x # y # ys else y # insert_by cmp x ys)"

definition sort_by :: "('a \<Rightarrow> 'a \<Rightarrow> int) \<Rightarrow> 'a list \<Rightarrow> 'a list" where
  "sort_by cmp xs = foldr (insert_by cmp) xs []"

subsection \<open>storageService\<close>

definition getContracts_try :: "localStorage \<Rightarrow> string \<Rightarrow> js_error + contract list" where
  "getContracts_try ls uid =
     (case JSON_parse (or_empty_array (CONTRACTS ls)) of
        Inl e \<Rightarrow> Inl e
      | Inr allContracts \<Rightarrow>
          (case array_method allContracts of
             Inl e \<Rightarrow> Inl e
           | Inr rows \<Rightarrow>
               Inr (sort_by (\<lambda>a b. uploadDate b - uploadDate a)
                      (filter (\<lambda>c. userId c = uid) rows))))"

definition getContracts :: "localStorage \<Rightarrow> string \<Rightarrow> contract list" where
  "getContracts ls uid = (case getContracts_try ls uid of Inl e \<Rightarrow> [] | Inr r \<Rightarrow> r)"

definition setItem_CONTRACTS :: "host \<Rightarrow> localStorage \<Rightarrow> contract list \<Rightarrow> js_error + localStorage" where
  "setItem_CONTRACTS H ls v =
     (case setItem_contracts H ls v of
        Some e \<Rightarrow> Inl e
      | None \<Rightarrow> Inr (ls\<lparr>CONTRACTS := Some (Text (Rows v))\<rparr>))"

definition saveToStorage :: "host \<Rightarrow> localStorage \<Rightarrow> contract \<Rightarrow> js_error + localStorage" where
  "saveToStorage H ls contractToSave =
     (case JSON_parse (or_empty_array (CONTRACTS ls)) of
        Inl e \<Rightarrow> Inl e
      | Inr allContracts \<Rightarrow>
          (case array_method allContracts of
             Inl e \<Rightarrow> Inl e
           | Inr rows \<Rightarrow>
               (case findIndex (\<lambda>c. cid c = cid contractToSave) rows of
                  Some index \<Rightarrow> setItem_CONTRACTS H ls (rows[index := contractToSave])
                | None \<Rightarrow> setItem_CONTRACTS H ls (rows @ [contractToSave]))))"

definition is_quota_exceeded :: "js_error \<Rightarrow> bool" where
  "is_quota_exceeded e \<longleftrightarrow>
     ename e = ''QuotaExceededError'' \<or> ecode e = Some 22 \<or> ecode e = Some 1014"

definition saveContract :: "host \<Rightarrow> localStorage \<Rightarrow> contract \<Rightarrow> js_error + (contract \<times> localStorage)" where
  "saveContract H ls c =
     (case saveToStorage H ls c of
        Inr ls' \<Rightarrow> Inr (c, ls')
      | Inl e \<Rightarrow>
          if is_quota_exceeded e then
            (let lightContract = c\<lparr>fileData := None\<rparr>
             in case saveToStorage H ls lightContract of
                  Inr ls' \<Rightarrow> Inr (c, ls')
                | Inl retryError \<Rightarrow> Inl retryError)
          else Inl e)"

definition getContractById_try :: "localStorage \<Rightarrow> string \<Rightarrow> js_error + contract option" where
  "getContractById_try ls i =
     (case JSON_parse (or_empty_array (CONTRACTS ls)) of
        Inl e \<Rightarrow> Inl e
      | Inr allContracts \<Rightarrow>
          (case array_method allContracts of
             Inl e \<Rightarrow> Inl e
           | Inr rows \<Rightarrow> Inr (find (\<lambda>c. cid c = i) rows)))"

definition getContractById :: "localStorage \<Rightarrow> string \<Rightarrow> contract option" where
  "getContractById ls i = (case getContractById_try ls i of Inl e \<Rightarrow> None | Inr r \<Rightarrow> r)"

text \<open>\<^verbatim>\<open>stored ? JSON.parse(stored) : []\<close>: the parsed value is returned as it is, array or
  not.\<close>

definition getRecentAnalyses_try :: "localStorage \<Rightarrow> js_error + recentAnalysis parsed" where
  "getRecentAnalyses_try ls =
     (case RECENT_ANALYSES ls of
        None \<Rightarrow> Inr (Rows [])
      | Some stored \<Rightarrow> JSON_parse stored)"

definition getRecentAnalyses :: "localStorage \<Rightarrow> recentAnalysis parsed" where
  "getRecentAnalyses ls = (case getRecentAnalyses_try ls of Inl e \<Rightarrow> Rows [] | Inr r \<Rightarrow> r)"

definition setItem_RECENT :: "host \<Rightarrow> localStorage \<Rightarrow> recentAnalysis list \<Rightarrow> js_error + localStorage" where
  "setItem_RECENT H ls v =
     (case setItem_recent H ls v of
        Some e \<Rightarrow> Inl e
      | None \<Rightarrow> Inr (ls\<lparr>RECENT_ANALYSES := Some (Text (Rows v))\<rparr>))"

definition saveRecentAnalysis_try :: "host \<Rightarrow> localStorage \<Rightarrow> recentAnalysis \<Rightarrow> js_error + localStorage" where
  "saveRecentAnalysis_try H ls a =
     (let recent = getRecentAnalyses ls
      in case array_method recent of
           Inl e \<Rightarrow> Inl e
         | Inr rows \<Rightarrow>
             (let filtered = filter (\<lambda>item. rid item \<noteq> rid a) rows;
                  unshifted = a # filtered;
                  trimmed = take 10 unshifted
              in setItem_RECENT H ls trimmed))"

definition saveRecentAnalysis :: "host \<Rightarrow> localStorage \<Rightarrow> recentAnalysis \<Rightarrow> localStorage" where
  "saveRecentAnalysis H ls a =
     (case saveRecentAnalysis_try H ls a of Inl e \<Rightarrow> ls | Inr ls' \<Rightarrow> ls')"

definition clearRecentAnalyses :: "localStorage \<Rightarrow> localStorage" where
  "clearRecentAnalyses ls = ls\<lparr>RECENT_ANALYSES := None\<rparr>"

subsection \<open>ContractUpload: submission\<close>

definition validTypes :: "string list" where
  "validTypes = [''application/pdf'', ''image/jpeg'', ''image/png'', ''image/webp'']"

text \<open>The template string of the rejection; \<open>CHR 0x22\<close> is the double quote.\<close>

definition invalid_format_message :: "File \<Rightarrow> string" where
  "invalid_format_message f =
     ''File '' @ [CHR 0x22] @ fname f @ [CHR 0x22] @
     '' has an invalid format. Please upload PDF or Images.''"

definition pending_item :: "File \<Rightarrow> fileUploadState" where
  "pending_item f = \<lparr>file_of = f, status = Pending, error = None, contract = None\<rparr>"

text \<open>The \<^verbatim>\<open>forEach\<close> of \<^verbatim>\<open>validateAndAddFiles\<close>: it carries the local array \<^verbatim>\<open>newFiles\<close>
  and the value last given to \<^verbatim>\<open>setGlobalError\<close>.\<close>

fun forEach_validate ::
  "File list \<Rightarrow> fileUploadState list \<times> string option \<Rightarrow> fileUploadState list \<times> string option" where
  "forEach_validate [] acc = acc"
| "forEach_validate (f # fs) (newFiles, ge) =
     (if ftype f \<notin> set validTypes
      then forEach_validate fs (newFiles, Some (invalid_format_message f))
      else forEach_validate fs (newFiles @ [pending_item f], ge))"

definition validateAndAddFiles :: "upload_state \<Rightarrow> File list \<Rightarrow> upload_state" where
  "validateAndAddFiles s fileList =
     (case forEach_validate fileList ([], globalError s) of
        (newFiles, ge) \<Rightarrow>
          if length newFiles > 0
          then \<lparr>files = files s @ newFiles, globalError = None\<rparr>
          else \<lparr>files = files s, globalError = ge\<rparr>)"

subsection \<open>ContractUpload: dispatch of one item\<close>

text \<open>\<^verbatim>\<open>x || d\<close> on a string and on a number.\<close>

definition or_string :: "string \<Rightarrow> string \<Rightarrow> string" where
  "or_string x d = (if x = [] then d else x)"

definition or_number :: "int \<Rightarrow> int \<Rightarrow> int" where
  "or_number x d = (if x = 0 then d else x)"

definition newContract_of :: "host \<Rightarrow> fileUploadState \<Rightarrow> string \<Rightarrow> analysis \<Rightarrow> contract" where
  "newContract_of H fileState base64Data a =
     \<lparr>cid = generateId H (file_of fileState),
      userId = user_id H,
      fileName = fname (file_of fileState),
      uploadDate = Date_now H (file_of fileState),
      contract_status = ''analyzed'',
      analysis = a,
      fileData = Some base64Data,
      mimeType = ftype (file_of fileState)\<rparr>"

definition recentAnalysis_of :: "host \<Rightarrow> contract \<Rightarrow> analysis \<Rightarrow> recentAnalysis" where
  "recentAnalysis_of H newContract a =
     \<lparr>rid = cid newContract,
      rname = fileName newContract,
      createdAt = toISOString H (uploadDate newContract),
      sourceType = ''file'',
      rfileName = fileName newContract,
      rawText = or_string (fullText a) [],
      rriskScore = or_number (riskScore a) 0,
      riskSummary = overallRisk a,
      rsummary = [summary a],
      rclauses = clauses a\<rparr>"

text \<open>The body of the \<^verbatim>\<open>try\<close> block of \<^verbatim>\<open>processFile\<close>. No path that throws has written to
  the storage, so the exception carries no storage.\<close>

definition processFile_try ::
  "host \<Rightarrow> localStorage \<Rightarrow> fileUploadState \<Rightarrow> js_error + (fileUploadState \<times> localStorage)" where
  "processFile_try H ls fileState =
     (case readAsDataURL H (file_of fileState) of
        Inl e \<Rightarrow> Inl e
      | Inr base64Data \<Rightarrow>
          (case analyzeContract H base64Data (ftype (file_of fileState)) of
             Inl e \<Rightarrow> Inl e
           | Inr a \<Rightarrow>
               (let newContract = newContract_of H fileState base64Data a
                in case saveContract H ls newContract of
                     Inl e \<Rightarrow> Inl e
                   | Inr (saved, ls1) \<Rightarrow>
                       (let ls2 = saveRecentAnalysis H ls1 (recentAnalysis_of H newContract a)
                        in Inr (fileState\<lparr>status := Success, contract := Some newContract\<rparr>, ls2)))))"

definition processFile ::
  "host \<Rightarrow> localStorage \<Rightarrow> fileUploadState \<Rightarrow> fileUploadState \<times> localStorage" where
  "processFile H ls fileState =
     (case processFile_try H ls fileState of
        Inr r \<Rightarrow> r
      | Inl e \<Rightarrow> (fileState\<lparr>status := Error, error := Some ''Failed to analyze''\<rparr>, ls))"

subsection \<open>ContractUpload: the batch\<close>

text \<open>
  \<^verbatim>\<open>Promise.all(pendingFiles.map(processFile))\<close>. All dispatches are started; the conversion
  and the analysis of an item do not touch the storage, and its storage section (after the
  timer of \<^verbatim>\<open>saveContract\<close> fires) runs without interruption. The dispatches therefore take
  effect on the storage one after the other, in the order of their instants \<open>settles_at\<close>
  (items of the same instant in the order of the batch). Each item is paired with its
  position, and \<^verbatim>\<open>Promise.all\<close> returns the results by position.
\<close>

definition completion_order :: "host \<Rightarrow> fileUploadState list \<Rightarrow> (nat \<times> fileUploadState) list" where
  "completion_order H pendingFiles =
     sort_key (\<lambda>p. settles_at H (file_of (snd p))) (enumerate 0 pendingFiles)"

fun settle_all ::
  "host \<Rightarrow> localStorage \<Rightarrow> (nat \<times> fileUploadState) list \<Rightarrow>
     (nat \<times> fileUploadState) list \<times> localStorage" where
  "settle_all H ls [] = ([], ls)"
| "settle_all H ls (p # rest) =
     (case processFile H ls (snd p) of
        (r, ls1) \<Rightarrow>
          (case settle_all H ls1 rest of
             (rs, ls2) \<Rightarrow> ((fst p, r) # rs, ls2)))"

definition Promise_all_processFile ::
  "host \<Rightarrow> localStorage \<Rightarrow> fileUploadState list \<Rightarrow> fileUploadState list \<times> localStorage" where
  "Promise_all_processFile H ls pendingFiles =
     (case settle_all H ls (completion_order H pendingFiles) of
        (settled, ls') \<Rightarrow> (map snd (sort_key fst settled), ls'))"

definition merge_result :: "fileUploadState \<Rightarrow> fileUploadState list \<Rightarrow> fileUploadState list" where
  "merge_result res next =
     (case findIndex (\<lambda>f. file_of f = file_of res) next of
        None \<Rightarrow> next
      | Some idx \<Rightarrow> next[idx := res])"

definition mark_processing :: "fileUploadState \<Rightarrow> fileUploadState" where
  "mark_processing f = (if status f = Pending then f\<lparr>status := Processing\<rparr> else f)"

text \<open>The navigation test \<^verbatim>\<open>files.length === 1 && results[0].status === 'success' &&
  results[0].contract\<close>. Reading \<^verbatim>\<open>.status\<close> of \<^verbatim>\<open>results[0]\<close> throws a TypeError when \<^verbatim>\<open>results\<close>
  is empty. \<open>Inr (Some c)\<close> is the call \<^verbatim>\<open>onUploadComplete(c)\<close>.\<close>

definition navigation_logic ::
  "fileUploadState list \<Rightarrow> fileUploadState list \<Rightarrow> js_error + contract option" where
  "navigation_logic fs results =
     (if length fs = 1 then
        (case results of
           [] \<Rightarrow> Inl TypeError
         | r # _ \<Rightarrow>
             if status r = Success then
               (case contract r of Some c \<Rightarrow> Inr (Some c) | None \<Rightarrow> Inr None)
             else Inr None)
      else Inr None)"

record analyzeAll_outcome =
  files_after :: "fileUploadState list"
  storage_after :: localStorage
  results_of :: "fileUploadState list"
  navigation :: "js_error + contract option"

definition handleAnalyzeAll ::
  "host \<Rightarrow> localStorage \<Rightarrow> fileUploadState list \<Rightarrow> analyzeAll_outcome" where
  "handleAnalyzeAll H ls fs =
     (let prev = map mark_processing fs;
          pendingFiles = filter (\<lambda>f. status f = Pending) fs
      in case Promise_all_processFile H ls pendingFiles of
           (results, ls') \<Rightarrow>
             \<lparr>files_after = fold merge_result results prev,
              storage_after = ls',
              results_of = results,
              navigation = navigation_logic fs results\<rparr>)"

text \<open>\<^verbatim>\<open>prev.filter((_, i) => i !== index)\<close>\<close>

definition handleRemoveFile :: "nat \<Rightarrow> fileUploadState list \<Rightarrow> fileUploadState list" where
  "handleRemoveFile index prev = map snd (filter (\<lambda>(i, _). i \<noteq> index) (enumerate 0 prev))"

text \<open>
  What the render offers. \<^verbatim>\<open>handleRemoveFile\<close> is local to the component and has one call
  site, the \<^verbatim>\<open>onClick\<close> of the remove button of a row, and that button is rendered under
  \<^verbatim>\<open>fileState.status === 'pending'\<close>. Remove on the row \<open>index\<close> is therefore the call of the
  handler when the row exists and is pending, and nothing otherwise. The Analyze button is
  shown unless every row is a success, and is disabled while a row is processing.
\<close>

definition remove_button_rendered :: "fileUploadState \<Rightarrow> bool" where
  "remove_button_rendered fileState \<longleftrightarrow> status fileState = Pending"

definition Remove :: "nat \<Rightarrow> fileUploadState list \<Rightarrow> fileUploadState list" where
  "Remove index fs =
     (if index < length fs \<and> remove_button_rendered (fs ! index)
      then handleRemoveFile index fs else fs)"

definition hasProcessing :: "fileUploadState list \<Rightarrow> bool" where
  "hasProcessing fs \<longleftrightarrow> list_ex (\<lambda>f. status f = Processing) fs"

definition analyze_button_enabled :: "fileUploadState list \<Rightarrow> bool" where
  "analyze_button_enabled fs \<longleftrightarrow>
     length fs > 0 \<and> \<not> (hasProcessing fs \<or> list_all (\<lambda>f. status f = Success) fs)"

subsection \<open>Notions used to state the properties\<close>

text \<open>The rows that the contracts key holds; none when the key is unset or its text is not
  that of an array.\<close>

definition stored_contracts :: "localStorage \<Rightarrow> contract list" where
  "stored_contracts ls = (case CONTRACTS ls of Some (Text (Rows xs)) \<Rightarrow> xs | _ \<Rightarrow> [])"

definition saveRecentAnalysis_seq :: "host \<Rightarrow> localStorage \<Rightarrow> recentAnalysis list \<Rightarrow> localStorage" where
  "saveRecentAnalysis_seq H ls entries = fold (\<lambda>a s. saveRecentAnalysis H s a) entries ls"

text \<open>The entries of a sequence of calls whose write the storage accepted, in call order.\<close>

fun inserted :: "host \<Rightarrow> localStorage \<Rightarrow> recentAnalysis list \<Rightarrow> recentAnalysis list" where
  "inserted H ls [] = []"
| "inserted H ls (a # rest) =
     (case saveRecentAnalysis_try H ls a of
        Inl e \<Rightarrow> inserted H ls rest
      | Inr ls' \<Rightarrow> a # inserted H ls' rest)"

text \<open>Of a list read most-recent-first, keep for every identifier its first (most recent)
  entry only.\<close>

fun latest_first :: "recentAnalysis list \<Rightarrow> recentAnalysis list" where
  "latest_first [] = []"
| "latest_first (x # xs) = x # filter (\<lambda>y. rid y \<noteq> rid x) (latest_first xs)"

text \<open>The storage that the dispatch of the item at position \<open>n\<close> finds: the one left by the
  dispatches that complete before it.\<close>

definition storage_met :: "host \<Rightarrow> localStorage \<Rightarrow> fileUploadState list \<Rightarrow> nat \<Rightarrow> localStorage" where
  "storage_met H ls pendingFiles n =
     snd (settle_all H ls (takeWhile (\<lambda>p. fst p \<noteq> n) (completion_order H pendingFiles)))"

subsection \<open>Concrete surroundings and values\<close>

definition QuotaExceededError :: js_error where
  "QuotaExceededError = \<lparr>ename = ''QuotaExceededError'', ecode = Some 22\<rparr>"

definition stored_size :: "contract list \<Rightarrow> nat" where
  "stored_size v = sum_list (map (\<lambda>c. case fileData c of None \<Rightarrow> 0 | Some d \<Rightarrow> length d) v)"

definition example_analysis :: analysis where
  "example_analysis =
     \<lparr>summary = ''Lease'', overallRisk = ''Low'', riskScore = 10, fullText = ''text'', clauses = []\<rparr>"

text \<open>A host whose contracts key takes at most \<open>q\<close> characters of file data, whose
  cache key takes everything, and whose reader and analysis service always answer.\<close>

definition quota_host :: "nat \<Rightarrow> host" where
  "quota_host q =
     \<lparr>setItem_contracts = (\<lambda>ls v. if q < stored_size v then Some QuotaExceededError else None),
      setItem_recent = (\<lambda>ls v. None),
      readAsDataURL = (\<lambda>f. Inr ''QUJD''),
      analyzeContract = (\<lambda>d t. Inr example_analysis),
      generateId = (\<lambda>f. ''id-'' @ fname f),
      Date_now = (\<lambda>f. 1000 + int (fref f)),
      toISOString = (\<lambda>t. ''1970-01-01T00:00:01.000Z''),
      settles_at = (\<lambda>f. 0),
      user_id = ''u1''\<rparr>"

definition empty_storage :: localStorage where
  "empty_storage = \<lparr>CONTRACTS = None, RECENT_ANALYSES = None\<rparr>"

definition example_contract :: contract where
  "example_contract =
     \<lparr>cid = ''c1'', userId = ''u1'', fileName = ''a.pdf'', uploadDate = 1000,
      contract_status = ''analyzed'', analysis = example_analysis, fileData = Some ''QUJD'',
      mimeType = ''application/pdf''\<rparr>"

definition example_entry :: "nat \<Rightarrow> recentAnalysis" where
  "example_entry n =
     \<lparr>rid = replicate n (CHR ''e''), rname = ''doc'', createdAt = ''1970-01-01T00:00:01.000Z'',
      sourceType = ''file'', rfileName = ''doc'', rawText = ''text'', rriskScore = 10,
      riskSummary = ''Low'', rsummary = [''Lease''], rclauses = []\<rparr>"

definition eleven_entries :: "recentAnalysis list" where
  "eleven_entries = map example_entry [0, 1, 2, 3, 4, 5, 6, 7, 8, 9, 10]"

definition null_storage :: localStorage where
  "null_storage =
     \<lparr>CONTRACTS = Some (Text (NotArray JNull)), RECENT_ANALYSES = Some (Text (NotArray JNull))\<rparr>"

definition file_a :: File where
  "file_a = \<lparr>fref = 1, fname = ''a.pdf'', ftype = ''application/pdf'', fsize = 3\<rparr>"

definition file_b :: File where
  "file_b = \<lparr>fref = 2, fname = ''b.pdf'', ftype = ''application/pdf'', fsize = 3\<rparr>"

definition service_error :: js_error where
  "service_error = \<lparr>ename = ''Error'', ecode = None\<rparr>"

text \<open>The analysis service fails on the second file and answers on every other; a file
  that comes later in the batch completes earlier.\<close>

definition scenario_host :: host where
  "scenario_host =
     (quota_host 100)
       \<lparr>readAsDataURL := (\<lambda>f. Inr (fname f)),
        analyzeContract := (\<lambda>d t. if d = ''b.pdf'' then Inl service_error else Inr example_analysis),
        settles_at := (\<lambda>f. 10 - fref f)\<rparr>"

text \<open>The cache key refuses every write; the contracts key refuses every write.\<close>

definition cache_full_host :: host where
  "cache_full_host = (quota_host 100)\<lparr>setItem_recent := (\<lambda>ls v. Some QuotaExceededError)\<rparr>"

definition storage_full_host :: host where
  "storage_full_host = (quota_host 100)\<lparr>setItem_contracts := (\<lambda>ls v. Some QuotaExceededError)\<rparr>"

definition failed_item :: fileUploadState where
  "failed_item = (pending_item file_b)\<lparr>status := Error, error := Some ''Failed to analyze''\<rparr>"

definition contract_a :: contract where
  "contract_a =
     \<lparr>cid = ''id-a.pdf'', userId = ''u1'', fileName = ''a.pdf'', uploadDate = 1001,
      contract_status = ''analyzed'', analysis = example_analysis, fileData = Some ''QUJD'',
      mimeType = ''application/pdf''\<rparr>"

definition succeeded_item :: fileUploadState where
  "succeeded_item = (pending_item file_a)\<lparr>status := Success, contract := Some contract_a\<rparr>"

definition file_txt :: File where
  "file_txt = \<lparr>fref = 3, fname = ''notes.txt'', ftype = ''text/plain'', fsize = 3\<rparr>"

definition file_doc :: File where
  "file_doc = \<lparr>fref = 4, fname = ''old.doc'', ftype = ''application/msword'', fsize = 3\<rparr>"

definition initial_state :: upload_state where
  "initial_state = \<lparr>files = [], globalError = None\<rparr>"

subsection \<open>Facts about the store\<close>

lemma findIndex_None_iff: "findIndex P xs = None \<longleftrightarrow> (\<forall>x \<in> set xs. \<not> P x)"
  by (induction xs) auto

lemma findIndex_Some_D:
  "findIndex P xs = Some i \<Longrightarrow> i < length xs \<and> P (xs ! i) \<and> (\<forall>j < i. \<not> P (xs ! j))"
proof (induction xs arbitrary: i)
  case Nil
  then show ?case by simp
next
  case (Cons x xs)
  show ?case
  proof (cases "P x")
    case True
    with Cons.prems show ?thesis by simp
  next
    case False
    with Cons.prems obtain k where k: "findIndex P xs = Some k" "i = Suc k"
      by auto
    from Cons.IH [OF k(1)] False k(2) show ?thesis
      by (auto simp: nth_Cons split: nat.splits)
  qed
qed

lemma find_append_new:
  "\<forall>x \<in> set xs. \<not> P x \<Longrightarrow> P y \<Longrightarrow> find P (xs @ [y]) = Some y"
  by (induction xs) auto

lemma find_update_first:
  "findIndex P xs = Some i \<Longrightarrow> P y \<Longrightarrow> find P (xs[i := y]) = Some y"
proof (induction xs arbitrary: i)
  case Nil
  then show ?case by simp
next
  case (Cons x xs)
  then show ?case by (cases "P x") auto
qed

lemma saveToStorage_then_getContractById:
  assumes "saveToStorage H ls x = Inr ls'"
  shows "getContractById ls' (cid x) = Some x"
proof -
  from assms obtain allContracts where
    p: "JSON_parse (or_empty_array (CONTRACTS ls)) = Inr (Rows allContracts)"
    by (auto simp: saveToStorage_def array_method_def split: sum.splits parsed.splits)
  show ?thesis
  proof (cases "findIndex (\<lambda>c. cid c = cid x) allContracts")
    case None
    with assms p have "CONTRACTS ls' = Some (Text (Rows (allContracts @ [x])))"
      by (auto simp: saveToStorage_def setItem_CONTRACTS_def array_method_def split: option.splits)
    moreover from None have "\<forall>c \<in> set allContracts. cid c \<noteq> cid x"
      by (simp add: findIndex_None_iff)
    ultimately show ?thesis
      by (simp add: getContractById_def getContractById_try_def JSON_parse_def
          or_empty_array_def array_method_def find_append_new)
  next
    case (Some i)
    with assms p have "CONTRACTS ls' = Some (Text (Rows (allContracts[i := x])))"
      by (auto simp: saveToStorage_def setItem_CONTRACTS_def array_method_def split: option.splits)
    with Some show ?thesis
      by (simp add: getContractById_def getContractById_try_def JSON_parse_def
          or_empty_array_def array_method_def find_update_first)
  qed
qed


text \<open>
  Claim C1. When the first write of \<^verbatim>\<open>saveContract\<close> fails with a capacity error (the
  name \<^verbatim>\<open>QuotaExceededError\<close>, or the code 22 or 1014), the outcome of \<^verbatim>\<open>saveContract\<close> is
  that of one further write, of the copy whose \<^verbatim>\<open>fileData\<close> is cleared and whose other
  fields are those of the document: if that write succeeds the caller gets the original
  document back, while a later read by identifier gives the light copy; if it fails, its
  exception is the outcome.
\<close>

theorem saveContract_quota_light_retry:
  "saveToStorage H ls c = Inl e \<Longrightarrow> is_quota_exceeded e \<Longrightarrow>
     saveContract H ls c =
       (case saveToStorage H ls (c\<lparr>fileData := None\<rparr>) of
          Inr ls' \<Rightarrow> Inr (c, ls')
        | Inl retryError \<Rightarrow> Inl retryError) \<and>
     fileData (c\<lparr>fileData := None\<rparr>) = None \<and>
     (c\<lparr>fileData := None\<rparr>)\<lparr>fileData := fileData c\<rparr> = c \<and>
     (\<forall>ls'. saveToStorage H ls (c\<lparr>fileData := None\<rparr>) = Inr ls' \<longrightarrow>
        saveContract H ls c = Inr (c, ls') \<and>
        getContractById ls' (cid c) = Some (c\<lparr>fileData := None\<rparr>)) \<and>
     (\<forall>retryError. saveToStorage H ls (c\<lparr>fileData := None\<rparr>) = Inl retryError \<longrightarrow>
        saveContract H ls c = Inl retryError)"
  using saveToStorage_then_getContractById [of H ls "c\<lparr>fileData := None\<rparr>"]
  by (simp add: saveContract_def)

theorem saveContract_quota_light_retry_witness:
  "saveToStorage (quota_host 3) empty_storage example_contract = Inl QuotaExceededError \<and>
   is_quota_exceeded QuotaExceededError \<and>
   saveToStorage (quota_host 3) empty_storage (example_contract\<lparr>fileData := None\<rparr>)
     = Inr (empty_storage\<lparr>CONTRACTS := Some (Text (Rows [example_contract\<lparr>fileData := None\<rparr>]))\<rparr>) \<and>
   saveContract (quota_host 3) empty_storage example_contract
     = Inr (example_contract,
            empty_storage\<lparr>CONTRACTS := Some (Text (Rows [example_contract\<lparr>fileData := None\<rparr>]))\<rparr>) \<and>
   getContractById (empty_storage\<lparr>CONTRACTS := Some (Text (Rows [example_contract\<lparr>fileData := None\<rparr>]))\<rparr>)
       (cid example_contract)
     = Some (example_contract\<lparr>fileData := None\<rparr>)"
proof -
  have full: "saveToStorage (quota_host 3) empty_storage example_contract = Inl QuotaExceededError"
    by (simp add: saveToStorage_def quota_host_def empty_storage_def example_contract_def
        JSON_parse_def or_empty_array_def array_method_def setItem_CONTRACTS_def stored_size_def)
  have quota: "is_quota_exceeded QuotaExceededError"
    by (simp add: is_quota_exceeded_def QuotaExceededError_def)
  have light: "saveToStorage (quota_host 3) empty_storage (example_contract\<lparr>fileData := None\<rparr>)
     = Inr (empty_storage\<lparr>CONTRACTS := Some (Text (Rows [example_contract\<lparr>fileData := None\<rparr>]))\<rparr>)"
    by (simp add: saveToStorage_def quota_host_def empty_storage_def example_contract_def
        JSON_parse_def or_empty_array_def array_method_def setItem_CONTRACTS_def stored_size_def)
  show ?thesis
    using full quota light saveContract_quota_light_retry [OF full quota]
    by simp
qed

subsection \<open>Facts about the cache\<close>

lemma filter_id_absent:
  "k \<notin> rid ` set ys \<Longrightarrow> filter (\<lambda>y. rid y \<noteq> k) ys = ys"
  by (induction ys) auto

lemma take_filter_take_Suc:
  "distinct (map rid ys) \<Longrightarrow>
   take n (filter (\<lambda>y. rid y \<noteq> k) (take (Suc n) ys)) = take n (filter (\<lambda>y. rid y \<noteq> k) ys)"
proof (induction ys arbitrary: n)
  case Nil
  then show ?case by simp
next
  case (Cons y ys)
  show ?case
  proof (cases n)
    case 0
    then show ?thesis by simp
  next
    case (Suc n')
    show ?thesis
    proof (cases "rid y = k")
      case False
      with Cons Suc show ?thesis by simp
    next
      case True
      with Cons.prems have absent: "k \<notin> rid ` set ys" by auto
      then have "k \<notin> rid ` set (take n ys)"
        by (meson image_mono in_mono set_take_subset)
      with absent True Suc show ?thesis
        by (simp add: filter_id_absent)
    qed
  qed
qed

lemma set_latest_first: "set (latest_first xs) \<subseteq> set xs"
  by (induction xs) auto

lemma distinct_latest_first: "distinct (map rid (latest_first xs))"
  by (induction xs) (auto simp: distinct_map_filter)

lemma latest_first_distinct: "distinct (map rid xs) \<Longrightarrow> latest_first xs = xs"
proof (induction xs)
  case Nil
  then show ?case by simp
next
  case (Cons x xs)
  then have "rid x \<notin> rid ` set xs" by auto
  with Cons show ?case by (simp add: filter_id_absent)
qed

lemma getRecentAnalyses_setItem:
  "setItem_RECENT H ls v = Inr ls' \<Longrightarrow> getRecentAnalyses ls' = Rows v"
  by (auto simp: setItem_RECENT_def getRecentAnalyses_def getRecentAnalyses_try_def
      JSON_parse_def split: option.splits)

lemma saveRecentAnalysis_try_rows:
  "getRecentAnalyses ls = Rows xs \<Longrightarrow>
   saveRecentAnalysis_try H ls a =
     setItem_RECENT H ls (take 10 (a # filter (\<lambda>item. rid item \<noteq> rid a) xs))"
  by (simp add: saveRecentAnalysis_try_def array_method_def Let_def)

lemma getRecentAnalyses_saved:
  "getRecentAnalyses ls = Rows xs \<Longrightarrow> saveRecentAnalysis_try H ls a = Inr ls' \<Longrightarrow>
   getRecentAnalyses ls' = Rows (take 10 (a # filter (\<lambda>item. rid item \<noteq> rid a) xs))"
  by (simp only: saveRecentAnalysis_try_rows getRecentAnalyses_setItem)

lemma saveRecentAnalysis_failed:
  "saveRecentAnalysis_try H ls a = Inl e \<Longrightarrow> saveRecentAnalysis H ls a = ls"
  by (simp add: saveRecentAnalysis_def)

lemma saveRecentAnalysis_accepted:
  "saveRecentAnalysis_try H ls a = Inr ls' \<Longrightarrow> saveRecentAnalysis H ls a = ls'"
  by (simp add: saveRecentAnalysis_def)

lemma cache_step:
  assumes "getRecentAnalyses ls = Rows (take 10 (latest_first (rev prior)))"
    and "saveRecentAnalysis_try H ls a = Inr ls'"
  shows "getRecentAnalyses ls' = Rows (take 10 (latest_first (rev (prior @ [a]))))"
proof -
  have "take 9 (filter (\<lambda>y. rid y \<noteq> rid a) (take (Suc 9) (latest_first (rev prior))))
        = take 9 (filter (\<lambda>y. rid y \<noteq> rid a) (latest_first (rev prior)))"
    by (rule take_filter_take_Suc) (rule distinct_latest_first)
  with getRecentAnalyses_saved [OF assms] show ?thesis
    by simp
qed

lemma cache_seq:
  "getRecentAnalyses ls = Rows (take 10 (latest_first (rev prior))) \<Longrightarrow>
   getRecentAnalyses (saveRecentAnalysis_seq H ls entries)
     = Rows (take 10 (latest_first (rev (prior @ inserted H ls entries))))"
proof (induction entries arbitrary: ls prior)
  case Nil
  then show ?case by (simp add: saveRecentAnalysis_seq_def)
next
  case (Cons a rest)
  show ?case
  proof (cases "saveRecentAnalysis_try H ls a")
    case (Inl e)
    with Cons.IH [OF Cons.prems] show ?thesis
      by (simp add: saveRecentAnalysis_seq_def saveRecentAnalysis_failed)
  next
    case (Inr ls')
    from Cons.IH [OF cache_step [OF Cons.prems Inr]] Inr show ?thesis
      by (simp add: saveRecentAnalysis_seq_def saveRecentAnalysis_accepted)
  qed
qed

lemma inserted_no_fault:
  "\<forall>s v. setItem_recent H s v = None \<Longrightarrow> getRecentAnalyses ls = Rows xs \<Longrightarrow>
   inserted H ls entries = entries"
proof (induction entries arbitrary: ls xs)
  case Nil
  show ?case by simp
next
  case (Cons a rest)
  let ?v = "take 10 (a # filter (\<lambda>item. rid item \<noteq> rid a) xs)"
  let ?ls' = "ls\<lparr>RECENT_ANALYSES := Some (Text (Rows ?v))\<rparr>"
  from Cons.prems have written: "saveRecentAnalysis_try H ls a = Inr ?ls'"
    by (simp add: saveRecentAnalysis_try_rows setItem_RECENT_def)
  from getRecentAnalyses_saved [OF Cons.prems(2) written]
  have "getRecentAnalyses ?ls' = Rows ?v" .
  from Cons.IH [OF Cons.prems(1) this] written show ?case
    by simp
qed

lemma reinsert_present:
  assumes "distinct (map rid cache)" and "length cache \<le> 10" and "rid a \<in> rid ` set cache"
  shows "take 10 (a # filter (\<lambda>item. rid item \<noteq> rid a) cache)
           = a # filter (\<lambda>item. rid item \<noteq> rid a) cache"
    and "length (a # filter (\<lambda>item. rid item \<noteq> rid a) cache) = length cache"
proof -
  from assms(3) obtain x where x: "x \<in> set cache" "rid x = rid a" by auto
  have "length (filter (\<lambda>item. rid item \<noteq> rid a) cache) < length cache"
    using x by (intro length_filter_less [of x]) auto
  moreover have "length cache \<le> Suc (length (filter (\<lambda>item. rid item \<noteq> rid a) cache))"
    using assms(1) x
  proof (induction cache)
    case Nil
    then show ?case by simp
  next
    case (Cons c cache)
    show ?case
    proof (cases "rid c = rid a")
      case True
      with Cons.prems have "rid a \<notin> rid ` set cache" by auto
      then show ?thesis using True by (simp add: filter_id_absent)
    next
      case False
      with Cons show ?thesis by auto
    qed
  qed
  ultimately show "length (a # filter (\<lambda>item. rid item \<noteq> rid a) cache) = length cache"
    by simp
  with assms(2) show "take 10 (a # filter (\<lambda>item. rid item \<noteq> rid a) cache)
           = a # filter (\<lambda>item. rid item \<noteq> rid a) cache"
    by (intro take_all) simp
qed


text \<open>
  Claim C2. After any sequence of \<^verbatim>\<open>saveRecentAnalysis\<close> calls that starts from an empty
  cache, the cache has at most 10 entries with pairwise different identifiers, and it is
  the list of the entries that were written, most recent first, each identifier kept at its
  most recent entry, cut to 10. Saving an entry whose identifier is present does not change
  the count, and once written the entry is at the front with the old one gone. When the
  storage accepts every write and the identifiers of the sequence differ, the cache is the
  10 entries saved last, most recent first.
\<close>

theorem recent_cache_bounded_latest_first:
  "getRecentAnalyses ls0 = Rows [] \<Longrightarrow>
     (\<exists>cache.
        getRecentAnalyses (saveRecentAnalysis_seq H ls0 entries) = Rows cache \<and>
        length cache \<le> 10 \<and>
        distinct (map rid cache) \<and>
        cache = take 10 (latest_first (rev (inserted H ls0 entries))) \<and>
        (rid a \<in> rid ` set cache \<longrightarrow>
           (\<exists>cache'.
              getRecentAnalyses (saveRecentAnalysis H (saveRecentAnalysis_seq H ls0 entries) a)
                = Rows cache' \<and>
              length cache' = length cache \<and>
              (\<forall>ls'. saveRecentAnalysis_try H (saveRecentAnalysis_seq H ls0 entries) a = Inr ls' \<longrightarrow>
                 cache' = a # filter (\<lambda>item. rid item \<noteq> rid a) cache))) \<and>
        ((\<forall>s v. setItem_recent H s v = None) \<longrightarrow>
           inserted H ls0 entries = entries \<and>
           (distinct (map rid entries) \<longrightarrow>
              cache = take 10 (rev entries) \<and>
              (10 < length entries \<longrightarrow> length cache = 10))))"
proof -
  assume empty: "getRecentAnalyses ls0 = Rows []"
  let ?final = "saveRecentAnalysis_seq H ls0 entries"
  let ?cache = "take 10 (latest_first (rev (inserted H ls0 entries)))"
  have "getRecentAnalyses ls0 = Rows (take 10 (latest_first (rev [])))"
    using empty by simp
  from cache_seq [OF this]
  have eq: "getRecentAnalyses ?final = Rows ?cache"
    by simp
  have len: "length ?cache \<le> 10"
    by simp
  have dist: "distinct (map rid ?cache)"
    by (simp add: distinct_latest_first distinct_take flip: take_map)
  have present: "\<exists>cache'.
        getRecentAnalyses (saveRecentAnalysis H ?final a) = Rows cache' \<and>
        length cache' = length ?cache \<and>
        (\<forall>ls'. saveRecentAnalysis_try H ?final a = Inr ls' \<longrightarrow>
           cache' = a # filter (\<lambda>item. rid item \<noteq> rid a) ?cache)"
    if "rid a \<in> rid ` set ?cache"
  proof (cases "saveRecentAnalysis_try H ?final a")
    case (Inl e)
    then show ?thesis by (simp add: saveRecentAnalysis_failed eq)
  next
    case (Inr ls')
    from getRecentAnalyses_saved [OF eq Inr] reinsert_present [OF dist len that]
    have "getRecentAnalyses ls' = Rows (a # filter (\<lambda>item. rid item \<noteq> rid a) ?cache)"
      and "length (a # filter (\<lambda>item. rid item \<noteq> rid a) ?cache) = length ?cache"
      by (simp_all only:)
    with Inr show ?thesis
      by (simp add: saveRecentAnalysis_accepted)
  qed
  have accepted: "inserted H ls0 entries = entries \<and>
        (distinct (map rid entries) \<longrightarrow>
           ?cache = take 10 (rev entries) \<and> (10 < length entries \<longrightarrow> length ?cache = 10))"
    if nofault: "\<forall>s v. setItem_recent H s v = None"
  proof -
    have ins: "inserted H ls0 entries = entries"
      using nofault empty by (rule inserted_no_fault)
    have "?cache = take 10 (rev entries) \<and> (10 < length entries \<longrightarrow> length ?cache = 10)"
      if "distinct (map rid entries)"
    proof -
      from that have "distinct (map rid (rev entries))"
        by (simp add: rev_map [symmetric])
      then have "latest_first (rev entries) = rev entries"
        by (rule latest_first_distinct)
      with ins show ?thesis by simp
    qed
    with ins show ?thesis by simp
  qed
  from eq len dist present accepted show ?thesis
    by blast
qed

theorem recent_cache_bounded_latest_first_witness:
  "getRecentAnalyses empty_storage = Rows [] \<and>
   (\<forall>s v. setItem_recent (quota_host 3) s v = None) \<and>
   distinct (map rid eleven_entries) \<and>
   10 < length eleven_entries \<and>
   getRecentAnalyses (saveRecentAnalysis_seq (quota_host 3) empty_storage eleven_entries)
     = Rows (map example_entry [10, 9, 8, 7, 6, 5, 4, 3, 2, 1])"
proof -
  have empty: "getRecentAnalyses empty_storage = Rows []"
    by (simp add: getRecentAnalyses_def getRecentAnalyses_try_def empty_storage_def)
  have nofault: "\<forall>s v. setItem_recent (quota_host 3) s v = None"
    by (simp add: quota_host_def)
  have dist: "distinct (map rid eleven_entries)"
    by (simp add: eleven_entries_def example_entry_def eval_nat_numeral)
  have len: "10 < length eleven_entries"
    by (simp add: eleven_entries_def)
  have last_ten: "take 10 (rev eleven_entries) = map example_entry [10, 9, 8, 7, 6, 5, 4, 3, 2, 1]"
    by (simp add: eleven_entries_def)
  note main = recent_cache_bounded_latest_first
    [OF empty, of "quota_host 3" eleven_entries "example_entry 0"]
  from main nofault dist
  have "getRecentAnalyses (saveRecentAnalysis_seq (quota_host 3) empty_storage eleven_entries)
          = Rows (take 10 (rev eleven_entries))"
    by auto
  with last_ten
  have cache: "getRecentAnalyses (saveRecentAnalysis_seq (quota_host 3) empty_storage eleven_entries)
          = Rows (map example_entry [10, 9, 8, 7, 6, 5, 4, 3, 2, 1])"
    by (simp only:)
  from empty nofault dist len cache show ?thesis
    by (intro conjI)
qed

subsection \<open>Facts about the reads\<close>

lemma mset_insert_by: "mset (insert_by cmp x xs) = add_mset x (mset xs)"
  by (induction xs) auto

lemma mset_sort_by: "mset (sort_by cmp xs) = mset xs"
  unfolding sort_by_def by (induction xs) (auto simp: mset_insert_by)

lemma set_insert_by: "set (insert_by cmp x xs) = insert x (set xs)"
  by (induction xs) auto

lemma sorted_insert_by_desc:
  "sorted_wrt (\<lambda>a b. k b \<le> k a) xs \<Longrightarrow>
   sorted_wrt (\<lambda>a b. k b \<le> k a) (insert_by (\<lambda>a b. k b - k a) x xs)"
  for k :: "'a \<Rightarrow> int"
proof (induction xs)
  case Nil
  then show ?case by simp
next
  case (Cons y ys)
  show ?case
  proof (cases "k y - k x \<le> 0")
    case True
    with Cons.prems show ?thesis by auto
  next
    case False
    with Cons show ?thesis by (auto simp: set_insert_by)
  qed
qed

lemma sorted_sort_by_desc:
  "sorted_wrt (\<lambda>a b. k b \<le> k a) (sort_by (\<lambda>a b. k b - k a) xs)"
  for k :: "'a \<Rightarrow> int"
  unfolding sort_by_def by (induction xs) (auto intro: sorted_insert_by_desc)

lemma getContracts_rows:
  "getContracts ls uid =
     sort_by (\<lambda>a b. uploadDate b - uploadDate a) (filter (\<lambda>c. userId c = uid) (stored_contracts ls))"
  by (simp add: getContracts_def getContracts_try_def stored_contracts_def JSON_parse_def
      or_empty_array_def array_method_def sort_by_def
      split: option.splits blob.splits parsed.splits)

text \<open>
  Claim C8. \<^verbatim>\<open>getContracts\<close> returns exactly the stored documents whose \<^verbatim>\<open>userId\<close> is the
  requested one (as a multiset: each as often as it is stored), and in the returned list
  the upload timestamps never increase.
\<close>

theorem getContracts_by_owner_newest_first:
  "mset (getContracts ls uid) = mset (filter (\<lambda>c. userId c = uid) (stored_contracts ls)) \<and>
   sorted_wrt (\<lambda>a b. uploadDate b \<le> uploadDate a) (getContracts ls uid)"
  by (simp add: getContracts_rows mset_sort_by sorted_sort_by_desc)

text \<open>The reads of the contracts key give the empty answer when the text under the key does
  not parse, and when it parses to a value that is not an array, since the array method
  then throws inside the \<^verbatim>\<open>try\<close>; the read of the cache key gives the empty list when the
  text does not parse.\<close>

lemma contracts_reads_tolerate_corruption:
  "CONTRACTS ls = Some Unparsable \<Longrightarrow>
     getContracts_try ls uid = Inl SyntaxError \<and> getContracts ls uid = [] \<and>
     getContractById_try ls i = Inl SyntaxError \<and> getContractById ls i = None"
  "CONTRACTS ls = Some (Text (NotArray v)) \<Longrightarrow>
     getContracts_try ls uid = Inl TypeError \<and> getContracts ls uid = [] \<and>
     getContractById_try ls i = Inl TypeError \<and> getContractById ls i = None"
  by (simp_all add: getContracts_def getContracts_try_def getContractById_def
      getContractById_try_def JSON_parse_def or_empty_array_def array_method_def)

lemma getRecentAnalyses_unparsable:
  "RECENT_ANALYSES ls = Some Unparsable \<Longrightarrow>
     getRecentAnalyses_try ls = Inl SyntaxError \<and> getRecentAnalyses ls = Rows []"
  by (simp add: getRecentAnalyses_def getRecentAnalyses_try_def JSON_parse_def)

lemma getContracts_no_match:
  assumes "\<forall>c \<in> set (stored_contracts ls). userId c \<noteq> uid"
  shows "getContracts ls uid = []"
proof -
  from assms have "filter (\<lambda>c. userId c = uid) (stored_contracts ls) = []"
    by (simp add: filter_empty_conv)
  then show ?thesis by (simp add: getContracts_rows sort_by_def)
qed

text \<open>
  Claim C7, at a storage whose two keys hold the JSON text \<^verbatim>\<open>null\<close>: the text parses, to a
  value that is not an array. \<^verbatim>\<open>getContracts\<close> and \<^verbatim>\<open>getContractById\<close> return the empty list
  and \<^verbatim>\<open>undefined\<close>, but \<^verbatim>\<open>getRecentAnalyses\<close> returns the parsed \<^verbatim>\<open>null\<close> itself, which is
  not the empty list.
\<close>

theorem getRecentAnalyses_returns_non_array:
  "getContracts null_storage ''u1'' = [] \<and>
   getContractById null_storage ''c1'' = None \<and>
   getRecentAnalyses null_storage = NotArray JNull \<and>
   getRecentAnalyses null_storage \<noteq> Rows []"
  by (simp add: null_storage_def getContracts_def getContracts_try_def getContractById_def
      getContractById_try_def getRecentAnalyses_def getRecentAnalyses_try_def JSON_parse_def
      or_empty_array_def array_method_def)

subsection \<open>Facts about the pipeline\<close>

lemma processFile_caught:
  "processFile_try H ls f = Inl e \<Longrightarrow>
   processFile H ls f = (f\<lparr>status := Error, error := Some ''Failed to analyze''\<rparr>, ls)"
  by (simp add: processFile_def)

lemma processFile_try_success:
  "processFile_try H ls f = Inr (r, ls') \<Longrightarrow>
   status r = Success \<and> file_of r = file_of f \<and> (\<exists>c. contract r = Some c)"
  by (auto simp: processFile_try_def Let_def split: sum.splits prod.splits)

lemma processFile_returned:
  "processFile_try H ls f = Inr p \<Longrightarrow> processFile H ls f = p"
  by (simp add: processFile_def)

lemma processFile_file_of: "file_of (fst (processFile H ls f)) = file_of f"
proof (cases "processFile_try H ls f")
  case (Inl e)
  then show ?thesis by (simp add: processFile_caught)
next
  case (Inr p)
  then show ?thesis
    using processFile_try_success [of H ls f "fst p" "snd p"]
    by (simp add: processFile_returned)
qed

lemma processFile_terminal:
  "status (fst (processFile H ls f)) = Success \<and> (\<exists>c. contract (fst (processFile H ls f)) = Some c) \<or>
   status (fst (processFile H ls f)) = Error \<and>
   error (fst (processFile H ls f)) = Some ''Failed to analyze''"
proof (cases "processFile_try H ls f")
  case (Inl e)
  then show ?thesis by (simp add: processFile_caught)
next
  case (Inr p)
  then show ?thesis
    using processFile_try_success [of H ls f "fst p" "snd p"]
    by (simp add: processFile_returned)
qed


subsection \<open>Facts about the completion order\<close>

lemma settle_all_Cons:
  "settle_all H ls (p # rest) =
     ((fst p, fst (processFile H ls (snd p)))
        # fst (settle_all H (snd (processFile H ls (snd p))) rest),
      snd (settle_all H (snd (processFile H ls (snd p))) rest))"
  by (simp split: prod.splits)

declare settle_all.simps(2) [simp del]

lemma settle_all_append:
  "settle_all H ls (xs @ ys) =
     (fst (settle_all H ls xs) @ fst (settle_all H (snd (settle_all H ls xs)) ys),
      snd (settle_all H (snd (settle_all H ls xs)) ys))"
  by (induction xs arbitrary: ls) (simp_all add: settle_all_Cons)

lemma settle_all_positions: "map fst (fst (settle_all H ls zs)) = map fst zs"
  by (induction zs arbitrary: ls) (simp_all add: settle_all_Cons)

lemma settle_all_files:
  "map (\<lambda>p. (fst p, file_of (snd p))) (fst (settle_all H ls zs))
     = map (\<lambda>p. (fst p, file_of (snd p))) zs"
  by (induction zs arbitrary: ls) (simp_all add: settle_all_Cons processFile_file_of)

lemma settle_all_terminal:
  "p \<in> set (fst (settle_all H ls zs)) \<Longrightarrow>
   status (snd p) = Success \<or> status (snd p) = Error \<and> error (snd p) = Some ''Failed to analyze''"
proof (induction zs arbitrary: ls)
  case Nil
  then show ?case by simp
next
  case (Cons z zs)
  from Cons.prems have "p = (fst z, fst (processFile H ls (snd z))) \<or>
      p \<in> set (fst (settle_all H (snd (processFile H ls (snd z))) zs))"
    by (simp add: settle_all_Cons)
  then show ?case
  proof
    assume "p = (fst z, fst (processFile H ls (snd z)))"
    with processFile_terminal [of H ls "snd z"] show ?thesis by auto
  next
    assume "p \<in> set (fst (settle_all H (snd (processFile H ls (snd z))) zs))"
    then show ?thesis by (rule Cons.IH)
  qed
qed

lemma settle_all_map_position:
  "settle_all H ls (map (apfst g) zs) =
     (map (apfst g) (fst (settle_all H ls zs)), snd (settle_all H ls zs))"
  by (induction zs arbitrary: ls) (simp_all add: settle_all_Cons)

text \<open>A dispatch that throws leaves the storage as it found it, so the list of the other
  dispatches settles to the same results and the same storage.\<close>

lemma settle_all_without_failed:
  assumes "\<And>A f B. zs = A @ (n, f) # B \<Longrightarrow>
             \<exists>e. processFile_try H (snd (settle_all H ls A)) f = Inl e"
  shows "settle_all H ls (filter (\<lambda>p. fst p \<noteq> n) zs) =
           (filter (\<lambda>p. fst p \<noteq> n) (fst (settle_all H ls zs)), snd (settle_all H ls zs))"
  using assms
proof (induction zs arbitrary: ls)
  case Nil
  show ?case by simp
next
  case (Cons z zs)
  show ?case
  proof (cases "fst z = n")
    case True
    then have "z # zs = [] @ (n, snd z) # zs" by (cases z) simp
    from Cons.prems [OF this] obtain e where "processFile_try H ls (snd z) = Inl e"
      by auto
    then have same: "snd (processFile H ls (snd z)) = ls"
      by (simp add: processFile_caught)
    have "\<exists>e. processFile_try H (snd (settle_all H ls A)) f = Inl e"
      if "zs = A @ (n, f) # B" for A f B
    proof -
      from that have "z # zs = (z # A) @ (n, f) # B" by simp
      from Cons.prems [OF this] same show ?thesis
        by (simp add: settle_all_Cons)
    qed
    from Cons.IH [OF this] True same show ?thesis
      by (simp add: settle_all_Cons)
  next
    case False
    have "\<exists>e. processFile_try H (snd (settle_all H (snd (processFile H ls (snd z))) A)) f = Inl e"
      if "zs = A @ (n, f) # B" for A f B
    proof -
      from that have "z # zs = (z # A) @ (n, f) # B" by simp
      from Cons.prems [OF this] show ?thesis
        by (simp add: settle_all_Cons)
    qed
    from Cons.IH [OF this] False show ?thesis
      by (simp add: settle_all_Cons)
  qed
qed

lemma insort_key_map_same_key:
  assumes "\<And>x. k (h x) = k x"
  shows "insort_key k (h x) (map h ys) = map h (insort_key k x ys)"
  by (induction ys) (simp_all add: assms)

lemma sort_key_map_same_key:
  assumes "\<And>x. k (h x) = k x"
  shows "sort_key k (map h zs) = map h (sort_key k zs)"
  by (induction zs) (simp_all add: insort_key_map_same_key [of k h, OF assms])

lemma completion_order_positions:
  "mset (completion_order H ps) = mset (enumerate 0 ps)"
  "set (completion_order H ps) = set (enumerate 0 ps)"
  "distinct (map fst (completion_order H ps))"
  "set (map fst (completion_order H ps)) = {0..<length ps}"
proof -
  show m: "mset (completion_order H ps) = mset (enumerate 0 ps)"
    by (simp add: completion_order_def)
  show "set (completion_order H ps) = set (enumerate 0 ps)"
    by (simp add: completion_order_def)
  have "mset (map fst (completion_order H ps)) = image_mset fst (mset (completion_order H ps))"
    by (simp only: mset_map)
  also have "\<dots> = image_mset fst (mset (enumerate 0 ps))"
    by (simp only: m)
  also have "\<dots> = mset (map fst (enumerate 0 ps))"
    by (simp only: mset_map)
  also have "\<dots> = mset [0..<length ps]"
    by (simp only: map_fst_enumerate add_0)
  finally have mm: "mset (map fst (completion_order H ps)) = mset [0..<length ps]" .
  then show "distinct (map fst (completion_order H ps))"
    by (metis distinct_upt mset_eq_imp_distinct_iff)
  from mm show "set (map fst (completion_order H ps)) = {0..<length ps}"
    by (metis atLeastLessThan_upt mset_eq_setD)
qed

lemma completion_order_nth:
  "(i, f) \<in> set (completion_order H ps) \<longleftrightarrow> i < length ps \<and> f = ps ! i"
  by (auto simp: completion_order_positions(2) in_set_enumerate_eq)

text \<open>The results by position: the list of the second components, sorted by the first,
  holds at each position the result paired with that position, and is the one list that
  does.\<close>

lemma results_at_position:
  assumes d: "distinct (map fst Z)" and s: "set (map fst Z) = {0..<n}"
  shows "length (map snd (sort_key fst Z)) = n"
    and "i < n \<Longrightarrow> (i, map snd (sort_key fst Z) ! i) \<in> set Z"
proof -
  let ?S = "sort_key fst Z"
  have "mset (map fst ?S) = mset (map fst Z)"
    by simp
  with d have dS: "distinct (map fst ?S)"
    by (metis mset_eq_imp_distinct_iff)
  have "sorted (map fst ?S)" by simp
  moreover have "set (map fst ?S) = set [0..<n]"
    using s by simp
  ultimately have pos: "map fst ?S = [0..<n]"
    using dS by (intro sorted_distinct_set_unique) simp_all
  then have len: "length ?S = n"
    by (metis length_map length_upt minus_nat.diff_0)
  then show "length (map snd ?S) = n" by simp
  assume i: "i < n"
  with len pos have "fst (?S ! i) = i"
    by (metis nth_map nth_upt add_0)
  moreover have "?S ! i \<in> set Z"
    using i len by (metis nth_mem set_sort)
  ultimately have "(i, snd (?S ! i)) \<in> set Z"
    by (metis prod.collapse)
  with i len show "(i, map snd ?S ! i) \<in> set Z"
    by simp
qed

lemma results_by_position:
  assumes d: "distinct (map fst Z)" and s: "set (map fst Z) = {0..<n}"
    and l: "length X = n" and x: "\<And>i. i < n \<Longrightarrow> (i, X ! i) \<in> set Z"
  shows "map snd (sort_key fst Z) = X"
proof (rule nth_equalityI)
  show "length (map snd (sort_key fst Z)) = length X"
    using results_at_position(1) [OF d s] l by simp
next
  fix i assume "i < length (map snd (sort_key fst Z))"
  then have i: "i < n"
    using results_at_position(1) [OF d s] by simp
  from d results_at_position(2) [OF d s i] x [OF i]
  show "map snd (sort_key fst Z) ! i = X ! i"
    by (rule eq_key_imp_eq_value)
qed

subsection \<open>Facts about the batch\<close>

lemma settled_positions:
  "distinct (map fst (fst (settle_all H ls (completion_order H ps))))"
  "set (map fst (fst (settle_all H ls (completion_order H ps)))) = {0..<length ps}"
  by (simp_all only: settle_all_positions completion_order_positions)

lemma Promise_all_unfold:
  "fst (Promise_all_processFile H ls ps) =
     map snd (sort_key fst (fst (settle_all H ls (completion_order H ps))))"
  "snd (Promise_all_processFile H ls ps) = snd (settle_all H ls (completion_order H ps))"
  by (simp_all add: Promise_all_processFile_def split: prod.splits)

lemma Promise_all_Nil [simp]: "Promise_all_processFile H ls [] = ([], ls)"
  by (simp add: Promise_all_processFile_def completion_order_def)

lemma Promise_all_length: "length (fst (Promise_all_processFile H ls ps)) = length ps"
  by (simp only: Promise_all_unfold results_at_position(1) [OF settled_positions])

lemma Promise_all_at_position:
  "i < length ps \<Longrightarrow>
   (i, fst (Promise_all_processFile H ls ps) ! i) \<in> set (fst (settle_all H ls (completion_order H ps)))"
  by (simp only: Promise_all_unfold results_at_position(2) [OF settled_positions])

lemma Promise_all_files:
  "map file_of (fst (Promise_all_processFile H ls ps)) = map file_of ps"
proof (rule nth_equalityI)
  show "length (map file_of (fst (Promise_all_processFile H ls ps))) = length (map file_of ps)"
    by (simp add: Promise_all_length)
next
  fix i assume "i < length (map file_of (fst (Promise_all_processFile H ls ps)))"
  then have i: "i < length ps" by (simp add: Promise_all_length)
  let ?r = "fst (Promise_all_processFile H ls ps) ! i"
  from Promise_all_at_position [OF i]
  have "(i, file_of ?r) \<in> set (map (\<lambda>p. (fst p, file_of (snd p)))
      (fst (settle_all H ls (completion_order H ps))))"
    by force
  then have "(i, file_of ?r) \<in> set (map (\<lambda>p. (fst p, file_of (snd p))) (completion_order H ps))"
    by (simp only: settle_all_files)
  then obtain f where "(i, f) \<in> set (completion_order H ps)" "file_of f = file_of ?r"
    by auto
  then have "file_of ?r = file_of (ps ! i)"
    by (simp add: completion_order_nth)
  with i show "map file_of (fst (Promise_all_processFile H ls ps)) ! i = map file_of ps ! i"
    by (simp add: Promise_all_length)
qed

lemma Promise_all_terminal:
  assumes "r \<in> set (fst (Promise_all_processFile H ls ps))"
  shows "status r = Success \<or> status r = Error \<and> error r = Some ''Failed to analyze''"
proof -
  from assms obtain p where "p \<in> set (fst (settle_all H ls (completion_order H ps)))" "r = snd p"
    by (auto simp: Promise_all_unfold)
  with settle_all_terminal [of p H ls] show ?thesis by simp
qed

lemma enumerate_shift:
  "map (apfst (\<lambda>i. i - 1)) (enumerate (Suc j) ys) = enumerate j ys"
  by (induction ys arbitrary: j) simp_all

lemma enumerate_without:
  "enumerate 0 (xs @ ys) =
     map (apfst (\<lambda>i. if i < length xs then i else i - 1))
       (filter (\<lambda>p. fst p \<noteq> length xs) (enumerate 0 (xs @ f # ys)))"
proof -
  let ?m = "length xs"
  let ?g = "\<lambda>i. if i < ?m then i else i - 1"
  have before: "\<forall>p \<in> set (enumerate 0 xs). fst p < ?m"
    by (auto simp: in_set_enumerate_eq)
  have after: "\<forall>p \<in> set (enumerate (Suc ?m) ys). Suc ?m \<le> fst p"
    by (auto simp: in_set_enumerate_eq)
  from before have keep1: "filter (\<lambda>p. fst p \<noteq> ?m) (enumerate 0 xs) = enumerate 0 xs"
    by (intro filter_True) auto
  from after have keep2: "filter (\<lambda>p. fst p \<noteq> ?m) (enumerate (Suc ?m) ys) = enumerate (Suc ?m) ys"
    by (intro filter_True) auto
  from before have id1: "map (apfst ?g) (enumerate 0 xs) = enumerate 0 xs"
    by (intro map_idI) (auto simp: apfst_def map_prod_def split: prod.splits)
  from after have "map (apfst ?g) (enumerate (Suc ?m) ys)
      = map (apfst (\<lambda>i. i - 1)) (enumerate (Suc ?m) ys)"
    by (intro map_cong) (auto simp: apfst_def map_prod_def split: prod.splits)
  then have sh: "map (apfst ?g) (enumerate (Suc ?m) ys) = enumerate ?m ys"
    by (simp only: enumerate_shift)
  have "filter (\<lambda>p. fst p \<noteq> ?m) (enumerate 0 (xs @ f # ys))
      = enumerate 0 xs @ enumerate (Suc ?m) ys"
    by (simp add: enumerate_append_eq keep1 keep2)
  then show ?thesis
    by (simp add: enumerate_append_eq id1 sh)
qed

lemma completion_order_without:
  "completion_order H (xs @ ys) =
     map (apfst (\<lambda>i. if i < length xs then i else i - 1))
       (filter (\<lambda>p. fst p \<noteq> length xs) (completion_order H (xs @ f # ys)))"
  unfolding completion_order_def
  by (simp only: enumerate_without [of xs ys f] filter_sort)
    (rule sort_key_map_same_key, simp)

lemma takeWhile_before_position:
  assumes "distinct (map fst zs)" and "zs = A @ (n, f) # B"
  shows "takeWhile (\<lambda>p. fst p \<noteq> n) zs = A"
proof -
  from assms have "\<forall>p \<in> set A. fst p \<noteq> n"
    by auto
  with assms(2) show ?thesis
    by (simp add: takeWhile_append2)
qed

lemma Promise_all_without_failed:
  assumes fail: "processFile_try H (storage_met H ls (xs @ f # ys) (length xs)) f = Inl e"
  shows "fst (Promise_all_processFile H ls (xs @ f # ys)) =
           take (length xs) (fst (Promise_all_processFile H ls (xs @ ys)))
             @ f\<lparr>status := Error, error := Some ''Failed to analyze''\<rparr>
             # drop (length xs) (fst (Promise_all_processFile H ls (xs @ ys)))"
    and "snd (Promise_all_processFile H ls (xs @ f # ys)) =
           snd (Promise_all_processFile H ls (xs @ ys))"
proof -
  let ?m = "length xs"
  let ?ps = "xs @ f # ys"
  let ?order = "completion_order H ?ps"
  let ?Z = "fst (settle_all H ls ?order)"
  let ?g = "\<lambda>i. if i < ?m then i else i - 1"
  let ?R' = "fst (Promise_all_processFile H ls (xs @ ys))"
  let ?failed = "f\<lparr>status := Error, error := Some ''Failed to analyze''\<rparr>"
  have dist: "distinct (map fst ?order)"
    by (rule completion_order_positions(3))
  have at_m: "(?m, f) \<in> set ?order"
    by (simp add: completion_order_nth)
  have split: "\<exists>e. processFile_try H (snd (settle_all H ls A)) f' = Inl e"
    if "?order = A @ (?m, f') # B" for A f' B
  proof -
    from that have "(?m, f') \<in> set ?order" by simp
    then have "f' = f" by (simp add: completion_order_nth)
    moreover from takeWhile_before_position [OF dist that]
    have "storage_met H ls ?ps ?m = snd (settle_all H ls A)"
      by (simp add: storage_met_def)
    ultimately show ?thesis using fail by auto
  qed
  have without: "settle_all H ls (filter (\<lambda>p. fst p \<noteq> ?m) ?order) =
      (filter (\<lambda>p. fst p \<noteq> ?m) ?Z, snd (settle_all H ls ?order))"
  proof (rule settle_all_without_failed)
    fix A f' B
    assume "?order = A @ (?m, f') # B"
    then show "\<exists>e. processFile_try H (snd (settle_all H ls A)) f' = Inl e"
      by (rule split)
  qed
  have settled': "settle_all H ls (completion_order H (xs @ ys)) =
      (map (apfst ?g) (filter (\<lambda>p. fst p \<noteq> ?m) ?Z), snd (settle_all H ls ?order))"
    by (simp only: completion_order_without [of H xs ys f] settle_all_map_position without fst_conv
        snd_conv)
  then show "snd (Promise_all_processFile H ls ?ps) = snd (Promise_all_processFile H ls (xs @ ys))"
    by (simp add: Promise_all_unfold(2))
  from at_m obtain A B where AB: "?order = A @ (?m, f) # B"
    by (meson split_list)
  from split [OF AB] obtain e' where "processFile_try H (snd (settle_all H ls A)) f = Inl e'"
    by blast
  then have "fst (processFile H (snd (settle_all H ls A)) f) = ?failed"
    by (simp add: processFile_caught)
  then have failed_in: "(?m, ?failed) \<in> set ?Z"
    by (simp add: AB settle_all_append [of H ls A] settle_all_Cons)
  have len': "length ?R' = length xs + length ys"
    by (simp add: Promise_all_length)
  have sibling: "\<exists>j. (j, ?R' ! i') \<in> set ?Z \<and> j \<noteq> ?m \<and> ?g j = i'"
    if "i' < length xs + length ys" for i'
  proof -
    from that have "i' < length (xs @ ys)" by simp
    from Promise_all_at_position [OF this, of H ls]
    have "(i', ?R' ! i') \<in> set (map (apfst ?g) (filter (\<lambda>p. fst p \<noteq> ?m) ?Z))"
      by (simp only: settled' fst_conv)
    then obtain p where p: "p \<in> set ?Z" "fst p \<noteq> ?m" "apfst ?g p = (i', ?R' ! i')"
      by auto
    from p(3) have "fst (apfst ?g p) = i'" and "snd (apfst ?g p) = ?R' ! i'"
      by (simp_all only: fst_conv snd_conv)
    then have g: "?g (fst p) = i'" and r: "snd p = ?R' ! i'"
      by (simp_all only: fst_apfst snd_apfst)
    have "(fst p, snd p) \<in> set ?Z"
      using p(1) by (simp only: prod.collapse)
    with r have "(fst p, ?R' ! i') \<in> set ?Z"
      by (simp only:)
    with p(2) g show ?thesis
      by (intro exI [of _ "fst p"] conjI)
  qed
  let ?X = "take ?m ?R' @ ?failed # drop ?m ?R'"
  have lt: "length (take ?m ?R') = ?m"
    by (simp add: len')
  have "map snd (sort_key fst ?Z) = ?X"
  proof (rule results_by_position [where n = "length ?ps"])
    show "distinct (map fst ?Z)" by (rule settled_positions(1))
    show "set (map fst ?Z) = {0..<length ?ps}" by (rule settled_positions(2))
    show "length ?X = length ?ps" by (simp add: len')
  next
    fix i assume i: "i < length ?ps"
    consider "i < ?m" | "i = ?m" | "?m < i" by linarith
    then show "(i, ?X ! i) \<in> set ?Z"
    proof cases
      case 1
      then have x: "?X ! i = ?R' ! i"
        by (simp add: nth_append len')
      from 1 have "i < length xs + length ys" by simp
      from sibling [OF this] obtain j where j: "(j, ?R' ! i) \<in> set ?Z" "j \<noteq> ?m" "?g j = i"
        by blast
      with 1 have "j = i" by (auto split: if_splits)
      with j x show ?thesis by simp
    next
      case 2
      with lt have "?X ! i = ?failed"
        by (metis nth_append_length)
      with 2 failed_in show ?thesis by simp
    next
      case 3
      then obtain k where k: "i = Suc (?m + k)"
        by (auto dest: less_imp_Suc_add)
      with i have "?m + k < length ?R'"
        by (simp add: len')
      with k have x: "?X ! i = ?R' ! (i - 1)"
        by (simp add: nth_append len')
      from 3 i have "i - 1 < length xs + length ys" by simp
      from sibling [OF this] obtain j
        where j: "(j, ?R' ! (i - 1)) \<in> set ?Z" "j \<noteq> ?m" "?g j = i - 1"
        by blast
      with 3 have "j = i" by (auto split: if_splits)
      with j x show ?thesis by simp
    qed
  qed
  then show "fst (Promise_all_processFile H ls ?ps) = ?X"
    by (simp only: Promise_all_unfold(1))
qed

text \<open>The merge of the results into the batch replaces an item by the result that carries
  the same file object and moves nothing.\<close>

lemma merge_result_files: "map file_of (merge_result r next) = map file_of next"
proof (cases "findIndex (\<lambda>f. file_of f = file_of r) next")
  case None
  then show ?thesis by (simp add: merge_result_def)
next
  case (Some idx)
  from findIndex_Some_D [OF Some] have "idx < length next" "file_of (next ! idx) = file_of r"
    by simp_all
  then have "(map file_of next)[idx := file_of r] = map file_of next"
    by (metis list_update_id nth_map)
  with Some show ?thesis by (simp add: merge_result_def map_update)
qed

lemma merge_result_distinct:
  assumes "distinct (map file_of next)"
  shows "merge_result r next = map (\<lambda>f. if file_of f = file_of r then r else f) next"
proof (cases "findIndex (\<lambda>f. file_of f = file_of r) next")
  case None
  then have "\<forall>f \<in> set next. file_of f \<noteq> file_of r"
    by (simp add: findIndex_None_iff)
  then have "map (\<lambda>f. if file_of f = file_of r then r else f) next = next"
    by (simp add: map_idI)
  with None show ?thesis by (simp add: merge_result_def)
next
  case (Some idx)
  from findIndex_Some_D [OF Some] have idx: "idx < length next" "file_of (next ! idx) = file_of r"
    by simp_all
  have "next[idx := r] = map (\<lambda>f. if file_of f = file_of r then r else f) next"
  proof (rule nth_equalityI)
    show "length (next[idx := r]) = length (map (\<lambda>f. if file_of f = file_of r then r else f) next)"
      by simp
  next
    fix j assume "j < length (next[idx := r])"
    then have j: "j < length next" by simp
    show "next[idx := r] ! j = map (\<lambda>f. if file_of f = file_of r then r else f) next ! j"
    proof (cases "j = idx")
      case True
      with idx show ?thesis by simp
    next
      case False
      with assms j idx have "file_of (next ! j) \<noteq> file_of (next ! idx)"
        by (metis distinct_conv_nth length_map nth_map)
      with False j idx show ?thesis by simp
    qed
  qed
  with Some show ?thesis by (simp add: merge_result_def)
qed

lemma fold_merge_result_files: "map file_of (fold merge_result rs prev) = map file_of prev"
  by (induction rs arbitrary: prev) (simp_all add: merge_result_files)

lemma fold_merge_result_untouched:
  assumes "distinct (map file_of prev)" and "i < length prev"
    and "file_of (prev ! i) \<notin> file_of ` set rs"
  shows "fold merge_result rs prev ! i = prev ! i"
  using assms
proof (induction rs arbitrary: prev)
  case Nil
  then show ?case by simp
next
  case (Cons r rs)
  have d: "distinct (map file_of (merge_result r prev))"
    using Cons.prems(1) by (simp add: merge_result_files)
  have l: "i < length (merge_result r prev)"
    using Cons.prems(2) by (metis length_map merge_result_files)
  have same: "merge_result r prev ! i = prev ! i"
    using Cons.prems by (simp add: merge_result_distinct)
  with Cons.prems(3) have "file_of (merge_result r prev ! i) \<notin> file_of ` set rs"
    by simp
  from Cons.IH [OF d l this] same show ?case by simp
qed

lemma fold_merge_result_replaced:
  assumes "distinct (map file_of prev)" and "i < length prev"
    and "file_of (prev ! i) \<in> file_of ` set rs"
  shows "fold merge_result rs prev ! i \<in> set rs"
  using assms
proof (induction rs arbitrary: prev)
  case Nil
  then show ?case by simp
next
  case (Cons r rs)
  have d: "distinct (map file_of (merge_result r prev))"
    using Cons.prems(1) by (simp add: merge_result_files)
  have l: "i < length (merge_result r prev)"
    using Cons.prems(2) by (metis length_map merge_result_files)
  have f: "file_of (merge_result r prev ! i) = file_of (prev ! i)"
    using Cons.prems(2) by (metis length_map merge_result_files nth_map)
  show ?case
  proof (cases "file_of (prev ! i) \<in> file_of ` set rs")
    case True
    with f have "file_of (merge_result r prev ! i) \<in> file_of ` set rs" by simp
    from Cons.IH [OF d l this] show ?thesis by simp
  next
    case False
    with Cons.prems(3) have here: "file_of (prev ! i) = file_of r" by auto
    from False f have "file_of (merge_result r prev ! i) \<notin> file_of ` set rs" by simp
    from fold_merge_result_untouched [OF d l this]
    have "fold merge_result (r # rs) prev ! i = merge_result r prev ! i" by simp
    also have "\<dots> = r"
      using Cons.prems(1,2) here by (simp add: merge_result_distinct)
    finally show ?thesis by simp
  qed
qed

lemma handleAnalyzeAll_results:
  "results_of (handleAnalyzeAll H ls fs) =
     fst (Promise_all_processFile H ls (filter (\<lambda>f. status f = Pending) fs))"
  "files_after (handleAnalyzeAll H ls fs) =
     fold merge_result (results_of (handleAnalyzeAll H ls fs)) (map mark_processing fs)"
  "storage_after (handleAnalyzeAll H ls fs) =
     snd (Promise_all_processFile H ls (filter (\<lambda>f. status f = Pending) fs))"
  "navigation (handleAnalyzeAll H ls fs) =
     navigation_logic fs (results_of (handleAnalyzeAll H ls fs))"
  by (simp_all add: handleAnalyzeAll_def Let_def split: prod.splits)

lemma mark_processing_file_of: "file_of (mark_processing f) = file_of f"
  by (simp add: mark_processing_def)

lemma handleAnalyzeAll_item:
  assumes d: "distinct (map file_of fs)" and i: "i < length fs"
  shows "status (fs ! i) = Pending \<Longrightarrow>
           files_after (handleAnalyzeAll H ls fs) ! i \<in> set (results_of (handleAnalyzeAll H ls fs))"
    and "status (fs ! i) \<noteq> Pending \<Longrightarrow> files_after (handleAnalyzeAll H ls fs) ! i = fs ! i"
proof -
  let ?prev = "map mark_processing fs"
  let ?rs = "results_of (handleAnalyzeAll H ls fs)"
  have mp: "map file_of ?prev = map file_of fs"
    by (simp add: mark_processing_file_of)
  have d': "distinct (map file_of ?prev)"
    using d by (simp only: mp)
  have i': "i < length ?prev" using i by simp
  have fi: "file_of (?prev ! i) = file_of (fs ! i)"
    using i by (simp add: mark_processing_file_of)
  have rsf: "file_of ` set ?rs = file_of ` {f \<in> set fs. status f = Pending}"
  proof -
    have "file_of ` set ?rs = set (map file_of ?rs)" by simp
    also have "\<dots> = set (map file_of (filter (\<lambda>f. status f = Pending) fs))"
      by (simp only: handleAnalyzeAll_results(1) Promise_all_files)
    finally show ?thesis by simp
  qed
  {
    assume "status (fs ! i) = Pending"
    with i have "file_of (fs ! i) \<in> file_of ` set ?rs"
      unfolding rsf by auto
    with fi have "file_of (?prev ! i) \<in> file_of ` set ?rs" by simp
    from fold_merge_result_replaced [OF d' i' this]
    show "files_after (handleAnalyzeAll H ls fs) ! i \<in> set ?rs"
      by (simp only: handleAnalyzeAll_results(2))
  }
  {
    assume np: "status (fs ! i) \<noteq> Pending"
    have "file_of (fs ! i) \<notin> file_of ` set ?rs"
    proof
      assume "file_of (fs ! i) \<in> file_of ` set ?rs"
      then obtain g where g: "g \<in> set fs" "status g = Pending" "file_of g = file_of (fs ! i)"
        unfolding rsf by auto
      from d have "inj_on file_of (set fs)" by (simp add: distinct_map)
      with g i have "g = fs ! i" by (auto dest: inj_onD)
      with g np show False by simp
    qed
    with fi have "file_of (?prev ! i) \<notin> file_of ` set ?rs" by simp
    from fold_merge_result_untouched [OF d' i' this] np i
    show "files_after (handleAnalyzeAll H ls fs) ! i = fs ! i"
      by (simp add: handleAnalyzeAll_results(2) mark_processing_def)
  }
qed

text \<open>The definitions that evaluate a dispatch on the concrete hosts.\<close>

lemmas eval_defs =
  processFile_def processFile_try_def saveContract_def saveToStorage_def setItem_CONTRACTS_def
  saveRecentAnalysis_def saveRecentAnalysis_try_def setItem_RECENT_def getRecentAnalyses_def
  getRecentAnalyses_try_def JSON_parse_def or_empty_array_def newContract_of_def
  recentAnalysis_of_def or_string_def or_number_def pending_item_def quota_host_def
  empty_storage_def stored_size_def example_analysis_def file_a_def file_b_def
  scenario_host_def cache_full_host_def storage_full_host_def QuotaExceededError_def
  service_error_def is_quota_exceeded_def array_method_def Promise_all_processFile_def
  completion_order_def settle_all_Cons Let_def

lemma navigation_logic_single:
  "navigation_logic [f] (r # rs) =
     (if status r = Success then (case contract r of Some c \<Rightarrow> Inr (Some c) | None \<Rightarrow> Inr None)
      else Inr None)"
  by (simp add: navigation_logic_def)

lemma handleAnalyzeAll_single_pending:
  assumes "status f = Pending"
  shows "results_of (handleAnalyzeAll H ls [f]) = [fst (processFile H ls f)]"
    and "files_after (handleAnalyzeAll H ls [f]) = [fst (processFile H ls f)]"
proof -
  show r: "results_of (handleAnalyzeAll H ls [f]) = [fst (processFile H ls f)]"
    using assms
    by (simp add: handleAnalyzeAll_results(1) Promise_all_unfold(1) completion_order_def
        settle_all_Cons)
  have "merge_result (fst (processFile H ls f)) [mark_processing f] = [fst (processFile H ls f)]"
    by (simp add: merge_result_def processFile_file_of mark_processing_file_of)
  then show "files_after (handleAnalyzeAll H ls [f]) = [fst (processFile H ls f)]"
    by (simp add: handleAnalyzeAll_results(2) r)
qed

lemma handleAnalyzeAll_nothing_pending:
  assumes "\<forall>f \<in> set fs. status f \<noteq> Pending"
  shows "results_of (handleAnalyzeAll H ls fs) = []"
    and "files_after (handleAnalyzeAll H ls fs) = fs"
    and "storage_after (handleAnalyzeAll H ls fs) = ls"
proof -
  from assms have none: "filter (\<lambda>f. status f = Pending) fs = []"
    by (simp add: filter_empty_conv)
  from assms have same: "map mark_processing fs = fs"
    by (simp add: map_idI mark_processing_def)
  show "results_of (handleAnalyzeAll H ls fs) = []"
    by (simp add: handleAnalyzeAll_results(1) none)
  then show "files_after (handleAnalyzeAll H ls fs) = fs"
    by (simp add: handleAnalyzeAll_results(2) same)
  show "storage_after (handleAnalyzeAll H ls fs) = ls"
    by (simp add: handleAnalyzeAll_results(3) none)
qed

lemma handleAnalyzeAll_nothing_pending_navigation:
  assumes "\<forall>f \<in> set fs. status f \<noteq> Pending"
  shows "navigation (handleAnalyzeAll H ls fs) = (if length fs = 1 then Inl TypeError else Inr None)"
  using handleAnalyzeAll_nothing_pending(1) [OF assms, of H ls]
  by (simp add: handleAnalyzeAll_results(4) navigation_logic_def)

text \<open>
  Claim C3, as the code has it. A failure of the conversion, of the analysis service or of
  the document write makes the \<^verbatim>\<open>try\<close> block of \<^verbatim>\<open>processFile\<close> throw; \<^verbatim>\<open>processFile\<close> catches
  it and returns the item with status \<^verbatim>\<open>error\<close> and the reason \<^verbatim>\<open>Failed to analyze\<close>, the
  storage untouched. A failure of the cache write is caught inside \<^verbatim>\<open>saveRecentAnalysis\<close> and
  the item ends with status \<^verbatim>\<open>success\<close>. In whatever order the dispatches complete, the batch
  returns one result per dispatched item, by position and each of them terminal; an item
  whose dispatch throws leaves the results of all other items, and the storage, exactly as
  they are for the batch without it. With pairwise different file objects, every pending
  item of the batch ends as its own terminal result and every other item stays as it was.
\<close>

theorem analyzeAll_failures_isolated:
  "(readAsDataURL H (file_of f) = Inl e \<longrightarrow> processFile_try H ls f = Inl e) \<and>
   (readAsDataURL H (file_of f) = Inr d \<and> analyzeContract H d (ftype (file_of f)) = Inl e \<longrightarrow>
      processFile_try H ls f = Inl e) \<and>
   (readAsDataURL H (file_of f) = Inr d \<and> analyzeContract H d (ftype (file_of f)) = Inr a \<and>
    saveContract H ls (newContract_of H f d a) = Inl e \<longrightarrow>
      processFile_try H ls f = Inl e) \<and>
   (processFile_try H ls f = Inl e \<longrightarrow>
      processFile H ls f = (f\<lparr>status := Error, error := Some ''Failed to analyze''\<rparr>, ls)) \<and>
   (readAsDataURL H (file_of f) = Inr d \<and> analyzeContract H d (ftype (file_of f)) = Inr a \<and>
    saveContract H ls (newContract_of H f d a) = Inr (c', ls1) \<and>
    saveRecentAnalysis_try H ls1 (recentAnalysis_of H (newContract_of H f d a) a) = Inl e \<longrightarrow>
      processFile H ls f =
        (f\<lparr>status := Success, contract := Some (newContract_of H f d a)\<rparr>, ls1)) \<and>
   map file_of (fst (Promise_all_processFile H ls ps)) = map file_of ps \<and>
   (\<forall>r \<in> set (fst (Promise_all_processFile H ls ps)).
      status r = Success \<or> status r = Error \<and> error r = Some ''Failed to analyze'') \<and>
   (processFile_try H (storage_met H ls (xs @ f # ys) (length xs)) f = Inl e \<longrightarrow>
      fst (Promise_all_processFile H ls (xs @ f # ys)) =
        take (length xs) (fst (Promise_all_processFile H ls (xs @ ys)))
          @ f\<lparr>status := Error, error := Some ''Failed to analyze''\<rparr>
          # drop (length xs) (fst (Promise_all_processFile H ls (xs @ ys))) \<and>
      snd (Promise_all_processFile H ls (xs @ f # ys)) =
        snd (Promise_all_processFile H ls (xs @ ys))) \<and>
   results_of (handleAnalyzeAll H ls fs) =
     fst (Promise_all_processFile H ls (filter (\<lambda>f. status f = Pending) fs)) \<and>
   (distinct (map file_of fs) \<and> i < length fs \<longrightarrow>
      (status (fs ! i) = Pending \<longrightarrow>
         files_after (handleAnalyzeAll H ls fs) ! i \<in> set (results_of (handleAnalyzeAll H ls fs)) \<and>
         file_of (files_after (handleAnalyzeAll H ls fs) ! i) = file_of (fs ! i)) \<and>
      (status (fs ! i) \<noteq> Pending \<longrightarrow> files_after (handleAnalyzeAll H ls fs) ! i = fs ! i))"
proof -
  have conv: "readAsDataURL H (file_of f) = Inl e \<longrightarrow> processFile_try H ls f = Inl e"
    by (simp add: processFile_try_def)
  have ana: "readAsDataURL H (file_of f) = Inr d \<and> analyzeContract H d (ftype (file_of f)) = Inl e \<longrightarrow>
      processFile_try H ls f = Inl e"
    by (simp add: processFile_try_def)
  have store: "readAsDataURL H (file_of f) = Inr d \<and> analyzeContract H d (ftype (file_of f)) = Inr a \<and>
    saveContract H ls (newContract_of H f d a) = Inl e \<longrightarrow> processFile_try H ls f = Inl e"
    by (simp add: processFile_try_def)
  have caught: "processFile_try H ls f = Inl e \<longrightarrow>
      processFile H ls f = (f\<lparr>status := Error, error := Some ''Failed to analyze''\<rparr>, ls)"
    by (simp add: processFile_caught)
  have cache: "readAsDataURL H (file_of f) = Inr d \<and> analyzeContract H d (ftype (file_of f)) = Inr a \<and>
    saveContract H ls (newContract_of H f d a) = Inr (c', ls1) \<and>
    saveRecentAnalysis_try H ls1 (recentAnalysis_of H (newContract_of H f d a) a) = Inl e \<longrightarrow>
      processFile H ls f =
        (f\<lparr>status := Success, contract := Some (newContract_of H f d a)\<rparr>, ls1)"
    by (simp add: processFile_def processFile_try_def saveRecentAnalysis_def Let_def)
  have terminal: "\<forall>r \<in> set (fst (Promise_all_processFile H ls ps)).
      status r = Success \<or> status r = Error \<and> error r = Some ''Failed to analyze''"
    using Promise_all_terminal by blast
  have skip: "processFile_try H (storage_met H ls (xs @ f # ys) (length xs)) f = Inl e \<longrightarrow>
      fst (Promise_all_processFile H ls (xs @ f # ys)) =
        take (length xs) (fst (Promise_all_processFile H ls (xs @ ys)))
          @ f\<lparr>status := Error, error := Some ''Failed to analyze''\<rparr>
          # drop (length xs) (fst (Promise_all_processFile H ls (xs @ ys))) \<and>
      snd (Promise_all_processFile H ls (xs @ f # ys)) =
        snd (Promise_all_processFile H ls (xs @ ys))"
    using Promise_all_without_failed [of H ls xs f ys e] by blast
  have merged: "distinct (map file_of fs) \<and> i < length fs \<longrightarrow>
      (status (fs ! i) = Pending \<longrightarrow>
         files_after (handleAnalyzeAll H ls fs) ! i \<in> set (results_of (handleAnalyzeAll H ls fs)) \<and>
         file_of (files_after (handleAnalyzeAll H ls fs) ! i) = file_of (fs ! i)) \<and>
      (status (fs ! i) \<noteq> Pending \<longrightarrow> files_after (handleAnalyzeAll H ls fs) ! i = fs ! i)"
  proof (intro impI conjI; elim conjE)
    assume d: "distinct (map file_of fs)" and i: "i < length fs"
    {
      assume "status (fs ! i) = Pending"
      then show "files_after (handleAnalyzeAll H ls fs) ! i \<in> set (results_of (handleAnalyzeAll H ls fs))"
        by (rule handleAnalyzeAll_item(1) [OF d i])
    }
    {
      have "map file_of (files_after (handleAnalyzeAll H ls fs)) = map file_of fs"
        by (simp add: handleAnalyzeAll_results(2) fold_merge_result_files mark_processing_file_of)
      with i show "file_of (files_after (handleAnalyzeAll H ls fs) ! i) = file_of (fs ! i)"
        by (metis length_map nth_map)
    }
    {
      assume "status (fs ! i) \<noteq> Pending"
      then show "files_after (handleAnalyzeAll H ls fs) ! i = fs ! i"
        by (rule handleAnalyzeAll_item(2) [OF d i])
    }
  qed
  from conv ana store caught cache Promise_all_files [of H ls ps] terminal skip
    handleAnalyzeAll_results(1) [of H ls fs] merged
  show ?thesis by (intro conjI)
qed

text \<open>The claim as it stands fails for a store-write failure of the cache: in a batch of
  one item whose document is written and whose cache write is refused, the item ends with
  status \<^verbatim>\<open>success\<close> and no reason.\<close>

theorem failed_cache_write_leaves_item_success:
  "saveContract cache_full_host empty_storage contract_a
     = Inr (contract_a, empty_storage\<lparr>CONTRACTS := Some (Text (Rows [contract_a]))\<rparr>) \<and>
   saveRecentAnalysis_try cache_full_host
       (empty_storage\<lparr>CONTRACTS := Some (Text (Rows [contract_a]))\<rparr>)
       (recentAnalysis_of cache_full_host contract_a example_analysis)
     = Inl QuotaExceededError \<and>
   map status (files_after (handleAnalyzeAll cache_full_host empty_storage [pending_item file_a]))
     = [Success] \<and>
   map error (files_after (handleAnalyzeAll cache_full_host empty_storage [pending_item file_a]))
     = [None]"
  by (simp add: eval_defs contract_a_def handleAnalyzeAll_def merge_result_def mark_processing_def)

theorem analyzeAll_failures_isolated_witness:
  "readAsDataURL scenario_host (file_of (pending_item file_b)) = Inr ''b.pdf'' \<and>
   analyzeContract scenario_host ''b.pdf'' (ftype (file_of (pending_item file_b))) = Inl service_error \<and>
   processFile_try scenario_host empty_storage (pending_item file_b) = Inl service_error \<and>
   processFile scenario_host empty_storage (pending_item file_b) = (failed_item, empty_storage) \<and>
   completion_order scenario_host [pending_item file_a, pending_item file_b]
     = [(1, pending_item file_b), (0, pending_item file_a)] \<and>
   processFile_try scenario_host
       (storage_met scenario_host empty_storage [pending_item file_a, pending_item file_b] 1)
       (pending_item file_b) = Inl service_error \<and>
   fst (Promise_all_processFile scenario_host empty_storage [pending_item file_a, pending_item file_b])
     = fst (Promise_all_processFile scenario_host empty_storage [pending_item file_a]) @ [failed_item] \<and>
   snd (Promise_all_processFile scenario_host empty_storage [pending_item file_a, pending_item file_b])
     = snd (Promise_all_processFile scenario_host empty_storage [pending_item file_a]) \<and>
   distinct (map file_of [pending_item file_a, pending_item file_b]) \<and>
   status ([pending_item file_a, pending_item file_b] ! 1) = Pending \<and>
   files_after (handleAnalyzeAll scenario_host empty_storage [pending_item file_a, pending_item file_b]) ! 1
     \<in> set (results_of (handleAnalyzeAll scenario_host empty_storage
                [pending_item file_a, pending_item file_b])) \<and>
   map status (files_after (handleAnalyzeAll scenario_host empty_storage
     [pending_item file_a, pending_item file_b])) = [Success, Error]"
proof -
  have conv: "readAsDataURL scenario_host (file_of (pending_item file_b)) = Inr ''b.pdf''"
    by (simp add: eval_defs)
  have ana: "analyzeContract scenario_host ''b.pdf'' (ftype (file_of (pending_item file_b)))
      = Inl service_error"
    by (simp add: eval_defs)
  have order: "completion_order scenario_host [pending_item file_a, pending_item file_b]
     = [(1, pending_item file_b), (0, pending_item file_a)]"
    by (simp add: eval_defs)
  have thrown: "processFile_try scenario_host
      (storage_met scenario_host empty_storage ([pending_item file_a] @ pending_item file_b # [])
         (length [pending_item file_a]))
      (pending_item file_b) = Inl service_error"
    by (simp add: eval_defs)
  then have thrown': "processFile_try scenario_host
       (storage_met scenario_host empty_storage [pending_item file_a, pending_item file_b] 1)
       (pending_item file_b) = Inl service_error"
    by simp
  have d: "distinct (map file_of [pending_item file_a, pending_item file_b])"
    by (simp add: eval_defs)
  have l1: "1 < length [pending_item file_a, pending_item file_b]"
    by simp
  have p: "status ([pending_item file_a, pending_item file_b] ! 1) = Pending"
    by (simp add: eval_defs)
  have st: "map status (files_after (handleAnalyzeAll scenario_host empty_storage
     [pending_item file_a, pending_item file_b])) = [Success, Error]"
    by (simp add: eval_defs handleAnalyzeAll_def merge_result_def mark_processing_def)
  have fi: "failed_item = (pending_item file_b)\<lparr>status := Error, error := Some ''Failed to analyze''\<rparr>"
    by (simp add: failed_item_def)
  have one: "length (fst (Promise_all_processFile scenario_host empty_storage [pending_item file_a]))
      = length [pending_item file_a]"
    by (rule Promise_all_length)
  note main = analyzeAll_failures_isolated [of scenario_host "pending_item file_b" service_error
      empty_storage "''b.pdf''" example_analysis contract_a empty_storage
      "[pending_item file_a, pending_item file_b]"
      "[pending_item file_a]" "[]" "[pending_item file_a, pending_item file_b]" 1]
  from main conv ana
  have t: "processFile_try scenario_host empty_storage (pending_item file_b) = Inl service_error"
    by blast
  with main
  have c: "processFile scenario_host empty_storage (pending_item file_b) = (failed_item, empty_storage)"
    unfolding fi by blast
  from main thrown
  have iso: "fst (Promise_all_processFile scenario_host empty_storage
        ([pending_item file_a] @ pending_item file_b # []))
     = take (length [pending_item file_a])
          (fst (Promise_all_processFile scenario_host empty_storage ([pending_item file_a] @ [])))
        @ (pending_item file_b)\<lparr>status := Error, error := Some ''Failed to analyze''\<rparr>
        # drop (length [pending_item file_a])
          (fst (Promise_all_processFile scenario_host empty_storage ([pending_item file_a] @ [])))"
    and sto: "snd (Promise_all_processFile scenario_host empty_storage
        ([pending_item file_a] @ pending_item file_b # []))
     = snd (Promise_all_processFile scenario_host empty_storage ([pending_item file_a] @ []))"
    by blast+
  from iso one have iso': "fst (Promise_all_processFile scenario_host empty_storage
        [pending_item file_a, pending_item file_b])
     = fst (Promise_all_processFile scenario_host empty_storage [pending_item file_a]) @ [failed_item]"
    unfolding fi by simp
  from sto have sto': "snd (Promise_all_processFile scenario_host empty_storage
        [pending_item file_a, pending_item file_b])
     = snd (Promise_all_processFile scenario_host empty_storage [pending_item file_a])"
    by simp
  from main d l1 p
  have m: "files_after (handleAnalyzeAll scenario_host empty_storage
        [pending_item file_a, pending_item file_b]) ! 1
     \<in> set (results_of (handleAnalyzeAll scenario_host empty_storage
                [pending_item file_a, pending_item file_b]))"
    by blast
  from conv ana t c order thrown' iso' sto' d p m st show ?thesis
    by (intro conjI)
qed

text \<open>
  Claim C4. \<^verbatim>\<open>handleAnalyzeAll\<close> calls \<^verbatim>\<open>onUploadComplete\<close> with a document exactly when the
  batch is one item, that item was pending, and its dispatch ended with status \<^verbatim>\<open>success\<close>
  (the document is then the one attached to the item, which is the whole batch
  afterwards); for a batch of two or more items it never calls it.
\<close>

theorem navigation_iff_single_success:
  "(navigation (handleAnalyzeAll H ls fs) = Inr (Some c) \<longleftrightarrow>
      (\<exists>f. fs = [f] \<and> status f = Pending \<and>
           status (fst (processFile H ls f)) = Success \<and>
           contract (fst (processFile H ls f)) = Some c)) \<and>
   (fs = [f] \<and> status f = Pending \<longrightarrow>
      files_after (handleAnalyzeAll H ls fs) = [fst (processFile H ls f)] \<and>
      (status (fst (processFile H ls f)) = Success \<longrightarrow>
         (\<exists>c'. navigation (handleAnalyzeAll H ls fs) = Inr (Some c')))) \<and>
   (2 \<le> length fs \<longrightarrow> navigation (handleAnalyzeAll H ls fs) = Inr None)"
proof -
  have many: "navigation (handleAnalyzeAll H ls fs) = Inr None" if "length fs \<noteq> 1"
    using that by (simp add: handleAnalyzeAll_results(4) navigation_logic_def)
  have single: "navigation (handleAnalyzeAll H ls [g]) =
      (if status (fst (processFile H ls g)) = Success
       then (case contract (fst (processFile H ls g)) of
               Some c \<Rightarrow> Inr (Some c) | None \<Rightarrow> Inr None)
       else Inr None)"
    if "status g = Pending" for g
    using that
    by (simp add: handleAnalyzeAll_results(4) handleAnalyzeAll_single_pending(1)
        navigation_logic_single)
  have raised: "navigation (handleAnalyzeAll H ls [g]) = Inl TypeError"
    if "status g \<noteq> Pending" for g
    using that handleAnalyzeAll_nothing_pending(1) [of "[g]" H ls]
    by (simp add: handleAnalyzeAll_results(4) navigation_logic_def)
  have iff: "navigation (handleAnalyzeAll H ls fs) = Inr (Some c) \<longleftrightarrow>
      (\<exists>f. fs = [f] \<and> status f = Pending \<and>
           status (fst (processFile H ls f)) = Success \<and>
           contract (fst (processFile H ls f)) = Some c)"
  proof (cases "length fs = 1")
    case False
    then have "\<nexists>f. fs = [f]" by auto
    with many [OF False] show ?thesis by simp
  next
    case True
    then obtain g where g: "fs = [g]"
      by (cases fs) auto
    show ?thesis
    proof (cases "status g = Pending")
      case True
      from single [OF True] g True show ?thesis
        by (auto split: option.splits if_splits)
    next
      case False
      from raised [OF False] g False show ?thesis by simp
    qed
  qed
  have one: "files_after (handleAnalyzeAll H ls fs) = [fst (processFile H ls f)] \<and>
      (status (fst (processFile H ls f)) = Success \<longrightarrow>
         (\<exists>c'. navigation (handleAnalyzeAll H ls fs) = Inr (Some c')))"
    if "fs = [f] \<and> status f = Pending"
  proof -
    from that have fs: "fs = [f]" and p: "status f = Pending" by simp_all
    from processFile_terminal [of H ls f] single [OF p] fs
      handleAnalyzeAll_single_pending(2) [OF p, of H ls]
    show ?thesis by auto
  qed
  have two: "navigation (handleAnalyzeAll H ls fs) = Inr None" if "2 \<le> length fs"
    using that by (intro many) simp
  from iff one two show ?thesis by blast
qed

theorem navigation_iff_single_success_witness:
  "status (pending_item file_a) = Pending \<and>
   status (fst (processFile (quota_host 100) empty_storage (pending_item file_a))) = Success \<and>
   contract (fst (processFile (quota_host 100) empty_storage (pending_item file_a))) = Some contract_a \<and>
   navigation (handleAnalyzeAll (quota_host 100) empty_storage [pending_item file_a])
     = Inr (Some contract_a) \<and>
   2 \<le> length [pending_item file_a, pending_item file_b] \<and>
   navigation (handleAnalyzeAll (quota_host 100) empty_storage
     [pending_item file_a, pending_item file_b]) = Inr None"
proof -
  have p: "status (pending_item file_a) = Pending"
    by (simp add: pending_item_def)
  have r: "fst (processFile (quota_host 100) empty_storage (pending_item file_a))
      = (pending_item file_a)\<lparr>status := Success, contract := Some contract_a\<rparr>"
    by (simp add: eval_defs contract_a_def)
  have s: "status (fst (processFile (quota_host 100) empty_storage (pending_item file_a))) = Success"
    and c: "contract (fst (processFile (quota_host 100) empty_storage (pending_item file_a)))
      = Some contract_a"
    by (simp_all add: r)
  from p s c navigation_iff_single_success
    [of "quota_host 100" empty_storage "[pending_item file_a]" contract_a "pending_item file_a"]
  have n1: "navigation (handleAnalyzeAll (quota_host 100) empty_storage [pending_item file_a])
     = Inr (Some contract_a)"
    by blast
  have l: "2 \<le> length [pending_item file_a, pending_item file_b]"
    by simp
  from l navigation_iff_single_success
    [of "quota_host 100" empty_storage "[pending_item file_a, pending_item file_b]"]
  have n2: "navigation (handleAnalyzeAll (quota_host 100) empty_storage
     [pending_item file_a, pending_item file_b]) = Inr None"
    by blast
  from p s c n1 l n2 show ?thesis
    by (intro conjI)
qed


text \<open>
  Claim C5, at a batch of one item whose analysis has failed: every item is terminal and
  the Analyze button is enabled; \<^verbatim>\<open>handleAnalyzeAll\<close> dispatches nothing and changes neither
  the batch nor the storage, but the navigation test reads \<^verbatim>\<open>results[0].status\<close> of the
  empty result array and throws a TypeError.
\<close>

theorem analyzeAll_single_failed_item_raises:
  "status failed_item = Error \<and>
   analyze_button_enabled [failed_item] \<and>
   handleAnalyzeAll (quota_host 100) empty_storage [failed_item]
     = \<lparr>files_after = [failed_item], storage_after = empty_storage, results_of = [],
        navigation = Inl TypeError\<rparr>"
  by (simp add: handleAnalyzeAll_def failed_item_def pending_item_def mark_processing_def
      navigation_logic_def analyze_button_enabled_def hasProcessing_def)

text \<open>
  Claim C9, as the code has it. A failure of the document write leaves \<^verbatim>\<open>saveContract\<close> as
  an exception exactly when the first write fails with an error that is not a capacity
  error, or fails with a capacity error and the write of the light copy fails as well (the
  exception is then that of the second write); \<^verbatim>\<open>processFile\<close> turns it into status
  \<^verbatim>\<open>error\<close> with the reason \<^verbatim>\<open>Failed to analyze\<close>. A failure of the cache write is caught
  inside \<^verbatim>\<open>saveRecentAnalysis\<close>, which returns with the storage unchanged; the item whose
  document was written ends with status \<^verbatim>\<open>success\<close> whatever the cache write did.
\<close>

theorem document_write_error_propagates_cache_error_caught:
  "(saveContract H ls c = Inl e \<longleftrightarrow>
      saveToStorage H ls c = Inl e \<and> \<not> is_quota_exceeded e \<or>
      (\<exists>e0. saveToStorage H ls c = Inl e0 \<and> is_quota_exceeded e0 \<and>
            saveToStorage H ls (c\<lparr>fileData := None\<rparr>) = Inl e)) \<and>
   (readAsDataURL H (file_of f) = Inr d \<and> analyzeContract H d (ftype (file_of f)) = Inr a \<and>
    saveContract H ls (newContract_of H f d a) = Inl e \<longrightarrow>
      processFile H ls f = (f\<lparr>status := Error, error := Some ''Failed to analyze''\<rparr>, ls)) \<and>
   (saveRecentAnalysis_try H ls r = Inl e \<longrightarrow> saveRecentAnalysis H ls r = ls) \<and>
   (readAsDataURL H (file_of f) = Inr d \<and> analyzeContract H d (ftype (file_of f)) = Inr a \<and>
    saveContract H ls (newContract_of H f d a) = Inr (c', ls1) \<longrightarrow>
      fst (processFile H ls f) = f\<lparr>status := Success, contract := Some (newContract_of H f d a)\<rparr> \<and>
      (saveRecentAnalysis_try H ls1 (recentAnalysis_of H (newContract_of H f d a) a) = Inl e \<longrightarrow>
         snd (processFile H ls f) = ls1))"
proof -
  have sc: "saveContract H ls c = Inl e \<longleftrightarrow>
      saveToStorage H ls c = Inl e \<and> \<not> is_quota_exceeded e \<or>
      (\<exists>e0. saveToStorage H ls c = Inl e0 \<and> is_quota_exceeded e0 \<and>
            saveToStorage H ls (c\<lparr>fileData := None\<rparr>) = Inl e)"
    by (auto simp: saveContract_def split: sum.splits if_splits)
  have pf: "readAsDataURL H (file_of f) = Inr d \<and> analyzeContract H d (ftype (file_of f)) = Inr a \<and>
    saveContract H ls (newContract_of H f d a) = Inl e \<longrightarrow>
      processFile H ls f = (f\<lparr>status := Error, error := Some ''Failed to analyze''\<rparr>, ls)"
    by (simp add: processFile_def processFile_try_def)
  have ra: "saveRecentAnalysis_try H ls r = Inl e \<longrightarrow> saveRecentAnalysis H ls r = ls"
    by (simp add: saveRecentAnalysis_def)
  have ok: "readAsDataURL H (file_of f) = Inr d \<and> analyzeContract H d (ftype (file_of f)) = Inr a \<and>
    saveContract H ls (newContract_of H f d a) = Inr (c', ls1) \<longrightarrow>
      fst (processFile H ls f) = f\<lparr>status := Success, contract := Some (newContract_of H f d a)\<rparr> \<and>
      (saveRecentAnalysis_try H ls1 (recentAnalysis_of H (newContract_of H f d a) a) = Inl e \<longrightarrow>
         snd (processFile H ls f) = ls1)"
    by (simp add: processFile_def processFile_try_def saveRecentAnalysis_def Let_def)
  from sc pf ra ok show ?thesis by (intro conjI)
qed

text \<open>The claim as it stands fails where the cache key refuses the write: the call returns,
  nothing is stored, and the item is a success.\<close>

theorem cache_write_error_not_propagated:
  "saveRecentAnalysis_try cache_full_host empty_storage (example_entry 1) = Inl QuotaExceededError \<and>
   saveRecentAnalysis cache_full_host empty_storage (example_entry 1) = empty_storage \<and>
   status (fst (processFile cache_full_host empty_storage (pending_item file_a))) = Success \<and>
   error (fst (processFile cache_full_host empty_storage (pending_item file_a))) = None \<and>
   RECENT_ANALYSES (snd (processFile cache_full_host empty_storage (pending_item file_a))) = None"
  by (simp add: eval_defs)

theorem document_write_error_propagates_cache_error_caught_witness:
  "saveToStorage storage_full_host empty_storage contract_a = Inl QuotaExceededError \<and>
   is_quota_exceeded QuotaExceededError \<and>
   saveToStorage storage_full_host empty_storage (contract_a\<lparr>fileData := None\<rparr>)
     = Inl QuotaExceededError \<and>
   saveContract storage_full_host empty_storage contract_a = Inl QuotaExceededError \<and>
   processFile storage_full_host empty_storage (pending_item file_a)
     = ((pending_item file_a)\<lparr>status := Error, error := Some ''Failed to analyze''\<rparr>, empty_storage) \<and>
   saveRecentAnalysis_try cache_full_host empty_storage (example_entry 1) = Inl QuotaExceededError \<and>
   saveRecentAnalysis cache_full_host empty_storage (example_entry 1) = empty_storage"
proof -
  have full: "saveToStorage storage_full_host empty_storage contract_a = Inl QuotaExceededError"
    by (simp add: eval_defs)
  have quota: "is_quota_exceeded QuotaExceededError"
    by (simp add: eval_defs)
  have light: "saveToStorage storage_full_host empty_storage (contract_a\<lparr>fileData := None\<rparr>)
     = Inl QuotaExceededError"
    by (simp add: eval_defs)
  have conv: "readAsDataURL storage_full_host (file_of (pending_item file_a)) = Inr ''QUJD''"
    by (simp add: eval_defs)
  have ana: "analyzeContract storage_full_host ''QUJD'' (ftype (file_of (pending_item file_a)))
     = Inr example_analysis"
    by (simp add: eval_defs)
  have new: "newContract_of storage_full_host (pending_item file_a) ''QUJD'' example_analysis
     = contract_a"
    by (simp add: eval_defs contract_a_def)
  have cache: "saveRecentAnalysis_try cache_full_host empty_storage (example_entry 1)
     = Inl QuotaExceededError"
    by (simp add: eval_defs)
  note doc = document_write_error_propagates_cache_error_caught
    [of storage_full_host empty_storage contract_a QuotaExceededError "pending_item file_a"
      "''QUJD''" example_analysis "example_entry 1", unfolded new]
  from doc full quota light
  have sc: "saveContract storage_full_host empty_storage contract_a = Inl QuotaExceededError"
    by blast
  from doc conv ana sc
  have pf: "processFile storage_full_host empty_storage (pending_item file_a)
     = ((pending_item file_a)\<lparr>status := Error, error := Some ''Failed to analyze''\<rparr>, empty_storage)"
    by blast
  from cache document_write_error_propagates_cache_error_caught
    [of cache_full_host empty_storage contract_a QuotaExceededError "pending_item file_a"
      "''QUJD''" example_analysis "example_entry 1"]
  have sw: "saveRecentAnalysis cache_full_host empty_storage (example_entry 1) = empty_storage"
    by blast
  from full quota light sc pf cache sw show ?thesis
    by (intro conjI)
qed

subsection \<open>Facts about submission and removal\<close>

lemma forEach_validate_result:
  "forEach_validate fl (acc, ge) =
     (acc @ map pending_item (filter (\<lambda>f. ftype f \<in> set validTypes) fl),
      case filter (\<lambda>f. ftype f \<notin> set validTypes) fl of
        [] \<Rightarrow> ge
      | x # xs \<Rightarrow> Some (invalid_format_message (last (x # xs))))"
proof (induction fl arbitrary: acc ge)
  case Nil
  show ?case by simp
next
  case (Cons f fl)
  show ?case
    by (simp add: Cons.IH split: list.splits)
qed

lemma enumerate_filter_below:
  "i < m \<Longrightarrow> filter (\<lambda>(j, _). j \<noteq> i) (enumerate m xs) = enumerate m xs"
  by (induction xs arbitrary: m) auto

lemma enumerate_filter_at:
  "map snd (filter (\<lambda>(j, _). j \<noteq> n + k) (enumerate n xs)) = take k xs @ drop (Suc k) xs"
proof (induction xs arbitrary: n k)
  case Nil
  show ?case by simp
next
  case (Cons x xs)
  show ?case
  proof (cases k)
    case 0
    then show ?thesis
      by (simp add: enumerate_filter_below)
  next
    case (Suc k')
    with Cons.IH [of "Suc n" k'] show ?thesis by simp
  qed
qed

lemma handleRemoveFile_take_drop:
  "handleRemoveFile index prev = take index prev @ drop (Suc index) prev"
  using enumerate_filter_at [of 0 index prev] by (simp add: handleRemoveFile_def)

text \<open>
  Claim C6, as the code has it. \<^verbatim>\<open>validateAndAddFiles\<close> appends exactly the files whose
  media type is one of the four allowed, each as a pending item and in the order of the
  submission, whatever other files the submission holds. When the submission is not empty
  and none of its files is allowed, the batch is unchanged and the error slot holds the
  message that names the last file of the submission.
\<close>

theorem validateAndAddFiles_accepts_allowed:
  "set validTypes = {''application/pdf'', ''image/jpeg'', ''image/png'', ''image/webp''} \<and>
   files (validateAndAddFiles s fl)
     = files s @ map pending_item (filter (\<lambda>f. ftype f \<in> set validTypes) fl) \<and>
   (fl \<noteq> [] \<and> filter (\<lambda>f. ftype f \<in> set validTypes) fl = [] \<longrightarrow>
      files (validateAndAddFiles s fl) = files s \<and>
      globalError (validateAndAddFiles s fl) = Some (invalid_format_message (last fl)))"
proof -
  have types: "set validTypes = {''application/pdf'', ''image/jpeg'', ''image/png'', ''image/webp''}"
    by (simp add: validTypes_def)
  have appended: "files (validateAndAddFiles s fl)
     = files s @ map pending_item (filter (\<lambda>f. ftype f \<in> set validTypes) fl)"
    by (simp add: validateAndAddFiles_def forEach_validate_result)
  have rejected: "files (validateAndAddFiles s fl) = files s \<and>
      globalError (validateAndAddFiles s fl) = Some (invalid_format_message (last fl))"
    if "fl \<noteq> [] \<and> filter (\<lambda>f. ftype f \<in> set validTypes) fl = []"
  proof -
    from that have none: "filter (\<lambda>f. ftype f \<in> set validTypes) fl = []" and ne: "fl \<noteq> []"
      by simp_all
    from none have "\<forall>f \<in> set fl. ftype f \<notin> set validTypes"
      by (simp add: filter_empty_conv)
    then have "filter (\<lambda>f. ftype f \<notin> set validTypes) fl = fl"
      by simp
    with none ne show ?thesis
      by (cases fl) (simp_all add: validateAndAddFiles_def forEach_validate_result)
  qed
  from types appended rejected show ?thesis by blast
qed

text \<open>The claim as it stands fails for a rejected file that comes with an allowed one (the
  error slot ends empty) and for a rejected file followed by another rejected one (the slot
  names the later file only).\<close>

theorem rejected_file_error_not_surfaced:
  "validateAndAddFiles initial_state [file_txt, file_a]
     = \<lparr>files = [pending_item file_a], globalError = None\<rparr> \<and>
   globalError (validateAndAddFiles initial_state [file_txt, file_doc])
     = Some (invalid_format_message file_doc) \<and>
   invalid_format_message file_doc \<noteq> invalid_format_message file_txt"
  by (simp add: validateAndAddFiles_def initial_state_def file_txt_def file_doc_def file_a_def
      validTypes_def invalid_format_message_def)

theorem validateAndAddFiles_accepts_allowed_witness:
  "[file_txt, file_doc] \<noteq> [] \<and>
   filter (\<lambda>f. ftype f \<in> set validTypes) [file_txt, file_doc] = [] \<and>
   files (validateAndAddFiles initial_state [file_txt, file_doc]) = [] \<and>
   globalError (validateAndAddFiles initial_state [file_txt, file_doc])
     = Some (invalid_format_message file_doc) \<and>
   files (validateAndAddFiles initial_state [file_txt, file_a, file_doc, file_b])
     = [pending_item file_a, pending_item file_b]"
proof -
  have none: "filter (\<lambda>f. ftype f \<in> set validTypes) [file_txt, file_doc] = []"
    by (simp add: file_txt_def file_doc_def validTypes_def)
  have some: "filter (\<lambda>f. ftype f \<in> set validTypes) [file_txt, file_a, file_doc, file_b]
      = [file_a, file_b]"
    by (simp add: file_txt_def file_doc_def file_a_def file_b_def validTypes_def)
  have init: "files initial_state = []"
    by (simp add: initial_state_def)
  have ne: "[file_txt, file_doc] \<noteq> []"
    by simp
  note rejected = validateAndAddFiles_accepts_allowed [of initial_state "[file_txt, file_doc]"]
  from rejected ne none
  have "files (validateAndAddFiles initial_state [file_txt, file_doc]) = files initial_state"
    by blast
  then have a: "files (validateAndAddFiles initial_state [file_txt, file_doc]) = []"
    by (simp only: init)
  from rejected ne none
  have "globalError (validateAndAddFiles initial_state [file_txt, file_doc])
     = Some (invalid_format_message (last [file_txt, file_doc]))"
    by blast
  then have b: "globalError (validateAndAddFiles initial_state [file_txt, file_doc])
     = Some (invalid_format_message file_doc)"
    by simp
  note mixed = validateAndAddFiles_accepts_allowed
    [of initial_state "[file_txt, file_a, file_doc, file_b]"]
  from mixed
  have "files (validateAndAddFiles initial_state [file_txt, file_a, file_doc, file_b])
     = files initial_state
         @ map pending_item
             (filter (\<lambda>f. ftype f \<in> set validTypes) [file_txt, file_a, file_doc, file_b])"
    by blast
  then have c: "files (validateAndAddFiles initial_state [file_txt, file_a, file_doc, file_b])
     = [pending_item file_a, pending_item file_b]"
    by (simp only: init some append_Nil list.map)
  from ne none a b c show ?thesis
    by (intro conjI)
qed

text \<open>
  Claim C10. Remove on an item whose status is not pending (processing, success or error)
  does nothing: the batch is the same afterwards, so the item is not removed. Remove on a
  pending item deletes exactly that item.
\<close>

theorem remove_only_while_pending:
  "(i < length fs \<and> status (fs ! i) \<noteq> Pending \<longrightarrow> Remove i fs = fs) \<and>
   (i < length fs \<and> status (fs ! i) = Pending \<longrightarrow> Remove i fs = take i fs @ drop (Suc i) fs) \<and>
   (length fs \<le> i \<longrightarrow> Remove i fs = fs)"
  by (simp add: Remove_def remove_button_rendered_def handleRemoveFile_take_drop)

theorem remove_only_while_pending_witness:
  "1 < length [pending_item file_b, succeeded_item] \<and>
   status ([pending_item file_b, succeeded_item] ! 1) \<noteq> Pending \<and>
   Remove 1 [pending_item file_b, succeeded_item] = [pending_item file_b, succeeded_item] \<and>
   status ([pending_item file_b, succeeded_item] ! 0) = Pending \<and>
   Remove 0 [pending_item file_b, succeeded_item] = [succeeded_item]"
proof -
  have l1: "1 < length [pending_item file_b, succeeded_item]"
    and l0: "0 < length [pending_item file_b, succeeded_item]"
    by simp_all
  have s1: "status ([pending_item file_b, succeeded_item] ! 1) \<noteq> Pending"
    by (simp add: succeeded_item_def)
  have s0: "status ([pending_item file_b, succeeded_item] ! 0) = Pending"
    by (simp add: pending_item_def)
  from l1 s1 remove_only_while_pending [of 1 "[pending_item file_b, succeeded_item]"]
  have kept: "Remove 1 [pending_item file_b, succeeded_item] = [pending_item file_b, succeeded_item]"
    by blast
  from l0 s0 remove_only_while_pending [of 0 "[pending_item file_b, succeeded_item]"]
  have "Remove 0 [pending_item file_b, succeeded_item]
      = take 0 [pending_item file_b, succeeded_item] @ drop (Suc 0) [pending_item file_b, succeeded_item]"
    by blast
  then have removed: "Remove 0 [pending_item file_b, succeeded_item] = [succeeded_item]"
    by simp
  from l1 s1 kept s0 removed show ?thesis
    by (intro conjI)
qed

end
